theory Spec2Isabelle
  imports Complex_Main "HOL-Library.Sublist" "HOL-Library.AList"
begin

section \<open>Strings\<close>

text \<open>
  JavaScript strings are modelled as \<^typ>\<open>string\<close>, a list of code units below
  256. The functions below are the string methods the plugin calls: \<open>split\<close>,
  \<open>pop\<close>, \<open>replace\<close> with a string pattern (which replaces the first
  occurrence only; the replacement is taken literally), \<open>includes\<close>, \<open>trim\<close> (the white space below 256) and
  \<open>toLowerCase\<close> (on the ASCII letters, which is all that membership in the list
  of image extensions can depend on).
\<close>

fun str_split :: "char \<Rightarrow> string \<Rightarrow> string list" where
  "str_split sep [] = [[]]"
| "str_split sep (c # cs) =
     (if c = sep then [] # str_split sep cs
      else (case str_split sep cs of
              [] \<Rightarrow> [[c]]
            | seg # segs \<Rightarrow> (c # seg) # segs))"

definition pop :: "'a list \<Rightarrow> 'a option" where
  "pop xs = (if xs = [] then None else Some (last xs))"

fun startsWith :: "string \<Rightarrow> string \<Rightarrow> bool" where
  "startsWith s [] = True"
| "startsWith [] (p # ps) = False"
| "startsWith (c # cs) (p # ps) = (c = p \<and> startsWith cs ps)"

fun replace :: "string \<Rightarrow> string \<Rightarrow> string \<Rightarrow> string" where
  "replace pat rep [] = (if startsWith [] pat then rep else [])"
| "replace pat rep (c # cs) =
     (if startsWith (c # cs) pat then rep @ drop (length pat) (c # cs)
      else c # replace pat rep cs)"

fun str_includes :: "string \<Rightarrow> string \<Rightarrow> bool" where
  "str_includes [] pat = startsWith [] pat"
| "str_includes (c # cs) pat = (startsWith (c # cs) pat \<or> str_includes cs pat)"

definition isWhiteSpace :: "char \<Rightarrow> bool" where
  "isWhiteSpace c = (of_char c \<in> {9, 10, 11, 12, 13, 32, 160 :: nat})"

definition trim :: "string \<Rightarrow> string" where
  "trim s = rev (dropWhile isWhiteSpace (rev (dropWhile isWhiteSpace s)))"

definition lowerChar :: "char \<Rightarrow> char" where
  "lowerChar c =
     (let n = (of_char c :: nat) in if 65 \<le> n \<and> n \<le> 90 then char_of (n + 32) else c)"

definition toLowerCase :: "string \<Rightarrow> string" where
  "toLowerCase s = map lowerChar s"

section \<open>The comparison key of a canvas path\<close>

text \<open>
  \<^verbatim>\<open>filePath.split('/').pop()?.replace('.canvas', '') || ''\<close>: an undefined or
  empty result becomes the empty string.
\<close>

definition getFileNameFromPath :: "string \<Rightarrow> string" where
  "getFileNameFromPath filePath =
     (case pop (str_split (CHR ''/'') filePath) of
        None \<Rightarrow> ''''
      | Some seg \<Rightarrow>
          (let r = replace ''.canvas'' '''' seg in if r = '''' then '''' else r))"

section \<open>The document\<close>

text \<open>
  The plugin never inserts or removes nodes; it reads the tree and changes attributes
  and inline styles of elements it holds references to. The document is therefore a
  tree of element identities and text nodes, with a store that gives every identity
  its class list, its attributes and its inline style.
\<close>

datatype element = Element (ident: nat) (childNodes: "node list")
  and node = TextNode string | ElementNode element

record element_state =
  classList :: "string list"
  attributes :: "(string \<times> string) list"
  style :: "(string \<times> string) list"

datatype selector =
    ClassSel string
  | HasAttrSel string
  | AttrEqSel string string

datatype console_msg =
    StartUpdate nat
  | NoContainer
  | ThumbnailSet string string
  | CardNotFound string
  | UpdateDone nat
  | ThumbnailApplied string
  | NoAdapterError
  | Cleared nat
  | Unloading

record world =
  document :: element
  elems :: "nat \<Rightarrow> element_state"
  cssAccepts :: "string \<Rightarrow> string \<Rightarrow> bool"
  console :: "console_msg list"

fun subtree :: "element \<Rightarrow> element list"
  and node_elements :: "node \<Rightarrow> element list" where
  "subtree (Element i kids) = Element i kids # concat (map node_elements kids)"
| "node_elements (TextNode t) = []"
| "node_elements (ElementNode e) = subtree e"

definition descendants :: "element \<Rightarrow> element list" where
  "descendants e = concat (map node_elements (childNodes e))"

fun textContent :: "element \<Rightarrow> string"
  and node_text :: "node \<Rightarrow> string" where
  "textContent (Element i kids) = concat (map node_text kids)"
| "node_text (TextNode t) = t"
| "node_text (ElementNode e) = textContent e"

fun matches :: "(nat \<Rightarrow> element_state) \<Rightarrow> selector \<Rightarrow> element \<Rightarrow> bool" where
  "matches st (ClassSel c) e = (c \<in> set (classList (st (ident e))))"
| "matches st (HasAttrSel a) e = (map_of (attributes (st (ident e))) a \<noteq> None)"
| "matches st (AttrEqSel a v) e = (map_of (attributes (st (ident e))) a = Some v)"

definition querySelectorAll ::
  "(nat \<Rightarrow> element_state) \<Rightarrow> selector \<Rightarrow> element \<Rightarrow> element list" where
  "querySelectorAll st sel e = filter (matches st sel) (descendants e)"

definition querySelector ::
  "(nat \<Rightarrow> element_state) \<Rightarrow> selector \<Rightarrow> element \<Rightarrow> element option" where
  "querySelector st sel e =
     (case querySelectorAll st sel e of [] \<Rightarrow> None | x # _ \<Rightarrow> Some x)"

text \<open>\<open>document.querySelectorAll\<close> and \<open>document.querySelector\<close> see every element
  of the document, its root element included.\<close>

definition document_querySelectorAll :: "world \<Rightarrow> selector \<Rightarrow> element list" where
  "document_querySelectorAll w sel = filter (matches (elems w) sel) (subtree (document w))"

definition document_querySelector :: "world \<Rightarrow> selector \<Rightarrow> element option" where
  "document_querySelector w sel =
     (case document_querySelectorAll w sel of [] \<Rightarrow> None | x # _ \<Rightarrow> Some x)"

definition getAttribute :: "world \<Rightarrow> element \<Rightarrow> string \<Rightarrow> string option" where
  "getAttribute w e name = map_of (attributes (elems w (ident e))) name"

definition setAttribute :: "element \<Rightarrow> string \<Rightarrow> string \<Rightarrow> world \<Rightarrow> world" where
  "setAttribute e name v w =
     w\<lparr>elems := (elems w)(ident e :=
          (elems w (ident e))\<lparr>attributes :=
             AList.update name v (attributes (elems w (ident e)))\<rparr>)\<rparr>"

definition removeAttribute :: "element \<Rightarrow> string \<Rightarrow> world \<Rightarrow> world" where
  "removeAttribute e name w =
     w\<lparr>elems := (elems w)(ident e :=
          (elems w (ident e))\<lparr>attributes :=
             AList.delete name (attributes (elems w (ident e)))\<rparr>)\<rparr>"

text \<open>
  Assigning to a property of \<open>element.style\<close>: the empty string removes the
  declaration; any other value is stored only if the browser's CSS parser accepts it
  for that property, and is dropped silently otherwise. The parser is not part of the
  plugin, so it is a field \<open>cssAccepts\<close> of the world, left arbitrary.
\<close>

definition setStyle :: "element \<Rightarrow> string \<Rightarrow> string \<Rightarrow> world \<Rightarrow> world" where
  "setStyle e prop v w =
     (if v = '''' then
        w\<lparr>elems := (elems w)(ident e :=
             (elems w (ident e))\<lparr>style := AList.delete prop (style (elems w (ident e)))\<rparr>)\<rparr>
      else if cssAccepts w prop v then
        w\<lparr>elems := (elems w)(ident e :=
             (elems w (ident e))\<lparr>style := AList.update prop v (style (elems w (ident e)))\<rparr>)\<rparr>
      else w)"

definition log :: "console_msg \<Rightarrow> world \<Rightarrow> world" where
  "log m w = w\<lparr>console := console w @ [m]\<rparr>"

text \<open>JavaScript truthiness of what \<open>getAttribute\<close> returns: \<open>null\<close> and the empty
  string are falsy.\<close>

definition truthy_attr :: "string option \<Rightarrow> bool" where
  "truthy_attr a = (case a of None \<Rightarrow> False | Some v \<Rightarrow> v \<noteq> '''')"

section \<open>Finding a card and decorating it\<close>

text \<open>\<^verbatim>\<open>nameElement?.textContent?.trim()\<close>: undefined when the card has no name
  element.\<close>

definition cardFileName :: "(nat \<Rightarrow> element_state) \<Rightarrow> element \<Rightarrow> string option" where
  "cardFileName st cardEl =
     (case querySelector st (AttrEqSel ''data-property'' ''file.name'') cardEl of
        None \<Rightarrow> None
      | Some nameElement \<Rightarrow> Some (trim (textContent nameElement)))"

fun findCard_loop ::
  "(nat \<Rightarrow> element_state) \<Rightarrow> element list \<Rightarrow> string \<Rightarrow> element option" where
  "findCard_loop st [] fileName = None"
| "findCard_loop st (cardEl # cards) fileName =
     (case cardFileName st cardEl of
        None \<Rightarrow> findCard_loop st cards fileName
      | Some name \<Rightarrow>
          if name = fileName \<or> str_includes name fileName then Some cardEl
          else findCard_loop st cards fileName)"

definition findCardByFileName ::
  "(nat \<Rightarrow> element_state) \<Rightarrow> element \<Rightarrow> string \<Rightarrow> element option" where
  "findCardByFileName st container fileName =
     findCard_loop st (querySelectorAll st (ClassSel ''bases-cards-item'') container) fileName"

text \<open>The vault adapter is either a \<open>FileSystemAdapter\<close>, which resolves a vault path
  to a resource URL, or some other adapter.\<close>

datatype adapter = FileSystemAdapter (getResourcePath: "string \<Rightarrow> string") | OtherAdapter

definition setCardThumbnail ::
  "adapter \<Rightarrow> string \<Rightarrow> element \<Rightarrow> string \<Rightarrow> world \<Rightarrow> world" where
  "setCardThumbnail adp imagePath coverElement canvasPath w =
     (case adp of
        FileSystemAdapter resolve \<Rightarrow>
          (let imageUrl = resolve imagePath;
               w1 = setStyle coverElement ''background-image''
                      (''url('' @ [CHR 0x27] @ imageUrl @ [CHR 0x27] @ '') !important'') w;
               w2 = setStyle coverElement ''background-size'' ''contain !important'' w1;
               w3 = setStyle coverElement ''background-repeat'' ''no-repeat !important'' w2;
               w4 = setStyle coverElement ''background-position'' ''center !important'' w3;
               w5 = setAttribute coverElement ''data-canvas-thumbnail'' canvasPath w4;
               w6 = setAttribute coverElement ''data-image-path'' imagePath w5
           in log (ThumbnailApplied imageUrl) w6)
      | OtherAdapter \<Rightarrow> log NoAdapterError w)"

text \<open>The body of \<open>data.forEach\<close>, threaded with \<open>updatedCount\<close>. The map is an
  association list in insertion order, a pair being (canvas path, image path).\<close>

definition forEach_body ::
  "adapter \<Rightarrow> element \<Rightarrow> string \<times> string \<Rightarrow> world \<times> nat \<Rightarrow> world \<times> nat" where
  "forEach_body adp cardsContainer entry acc =
     (case entry of (canvasPath, imagePath) \<Rightarrow>
      case acc of (w, updatedCount) \<Rightarrow>
        (let canvasFileName = getFileNameFromPath canvasPath in
         case findCardByFileName (elems w) cardsContainer canvasFileName of
           Some cardElement \<Rightarrow>
             (case querySelector (elems w) (ClassSel ''bases-cards-cover'') cardElement of
                Some coverElement \<Rightarrow>
                  if \<not> truthy_attr (getAttribute w coverElement ''data-canvas-thumbnail'')
                  then (log (ThumbnailSet canvasFileName imagePath)
                          (setCardThumbnail adp imagePath coverElement canvasPath w),
                        updatedCount + 1)
                  else (w, updatedCount)
              | None \<Rightarrow> (w, updatedCount))
         | None \<Rightarrow> (log (CardNotFound canvasFileName) w, updatedCount)))"

definition addCardThumbnails ::
  "adapter \<Rightarrow> (string \<times> string) list \<Rightarrow> world \<Rightarrow> world" where
  "addCardThumbnails adp data w0 =
     (let w = log (StartUpdate (length data)) w0 in
      case document_querySelector w (ClassSel ''bases-cards-container'') of
        None \<Rightarrow> log NoContainer w
      | Some cardsContainer \<Rightarrow>
          (case fold (forEach_body adp cardsContainer) data (w, 0) of
             (w', updatedCount) \<Rightarrow> log (UpdateDone updatedCount) w'))"

section \<open>Clearing\<close>

definition clearAllThumbnails :: "world \<Rightarrow> world" where
  "clearAllThumbnails w =
     (let thumbnailElements = document_querySelectorAll w (HasAttrSel ''data-canvas-thumbnail'');
          w' = fold (\<lambda>el s.
                  removeAttribute el ''data-image-path''
                    (removeAttribute el ''data-canvas-thumbnail''
                       (setStyle el ''background-image'' '''' s)))
                 thumbnailElements w
      in log (Cleared (length thumbnailElements)) w')"

text \<open>The part of \<open>onunload\<close> that touches the document.\<close>

definition onunload_document :: "world \<Rightarrow> world" where
  "onunload_document w =
     fold (\<lambda>el s.
             removeAttribute el ''data-canvas-thumbnail''
               (setStyle el ''background-image'' '''' s))
          (document_querySelectorAll (log Unloading w) (HasAttrSel ''data-canvas-thumbnail''))
          (log Unloading w)"

section \<open>The vault and parsed canvas documents\<close>

text \<open>
  What \<open>JSON.parse\<close> returns. An object holds its own properties, one value per key.
\<close>

datatype json =
    JNull
  | JBool bool
  | JNumber rat
  | JString string
  | JArray "json list"
  | JObject "(string \<times> json) list"

datatype js_error = TypeError | SyntaxError | ReadError

text \<open>
  Reading one of the properties \<open>nodes\<close>, \<open>type\<close> or \<open>file\<close> of a value: a
  \<open>TypeError\<close> on \<open>null\<close>, the own property of an object, and \<open>undefined\<close>
  (here \<open>None\<close>) on every other value, none of which has a property of these names.
\<close>

fun get_prop :: "json \<Rightarrow> string \<Rightarrow> js_error + json option" where
  "get_prop JNull k = Inl TypeError"
| "get_prop (JObject kvs) k = Inr (map_of kvs k)"
| "get_prop v k = Inr None"

fun truthy :: "json \<Rightarrow> bool" where
  "truthy JNull = False"
| "truthy (JBool b) = b"
| "truthy (JNumber r) = (r \<noteq> 0)"
| "truthy (JString s) = (s \<noteq> '''')"
| "truthy (JArray vs) = True"
| "truthy (JObject kvs) = True"

record TFile =
  path :: string
  extension :: string

text \<open>A folder has a path but no \<open>extension\<close> property.\<close>

datatype TAbstractFile = File TFile | Folder string

text \<open>
  The collaborators of the scan: the file listing, reading a file, \<open>JSON.parse\<close>, and
  the lookup of whatever value a node holds as \<open>file\<close>. They are not part of the
  plugin and are left arbitrary.
\<close>

record vault =
  getFiles :: "TFile list"
  read :: "TFile \<Rightarrow> js_error + string"
  JSON_parse :: "string \<Rightarrow> js_error + json"
  getAbstractFileByPath :: "json \<Rightarrow> TAbstractFile option"

datatype scan_msg =
    ScanStart
  | FoundThumbnail string string
  | ScanError string js_error
  | ScanDone nat

text \<open>The plugin's \<open>canvasWithThumbnail\<close> map, in insertion order, and the console.\<close>

record scan_state =
  canvasWithThumbnail :: "(string \<times> string) list"
  scan_console :: "scan_msg list"

definition pictureExtensions :: "string list" where
  "pictureExtensions =
     [''jpg'', ''jpeg'', ''png'', ''webp'', ''bmp'', ''svg'', ''gif'', ''ico'']"

definition scan_log :: "scan_msg \<Rightarrow> scan_state \<Rightarrow> scan_state" where
  "scan_log m s = s\<lparr>scan_console := scan_console s @ [m]\<rparr>"

text \<open>
  The loop over \<open>canvasData.nodes\<close>. \<open>Inl\<close> is an exception escaping the loop:
  reading \<open>node.type\<close> of a \<open>null\<close> node, or \<open>nodeFile.extension.toLowerCase()\<close>
  on a folder, whose \<open>extension\<close> is undefined. The only change of state is followed
  by \<open>break\<close>, so nothing has changed when an exception escapes.
\<close>

fun nodes_loop :: "vault \<Rightarrow> TFile \<Rightarrow> json list \<Rightarrow> scan_state \<Rightarrow> js_error + scan_state" where
  "nodes_loop v canvasFile [] s = Inr s"
| "nodes_loop v canvasFile (node # nodes) s =
     (case get_prop node ''type'' of
        Inl e \<Rightarrow> Inl e
      | Inr ty \<Rightarrow>
          if ty \<noteq> Some (JString ''file'') then nodes_loop v canvasFile nodes s
          else
            (case get_prop node ''file'' of
               Inl e \<Rightarrow> Inl e
             | Inr None \<Rightarrow> nodes_loop v canvasFile nodes s
             | Inr (Some file) \<Rightarrow>
                 if \<not> truthy file then nodes_loop v canvasFile nodes s
                 else
                   (case getAbstractFileByPath v file of
                      None \<Rightarrow> nodes_loop v canvasFile nodes s
                    | Some (Folder p) \<Rightarrow> Inl TypeError
                    | Some (File nodeFile) \<Rightarrow>
                        if toLowerCase (extension nodeFile) \<in> set pictureExtensions
                        then Inr (scan_log (FoundThumbnail (path canvasFile) (path nodeFile))
                                    (s\<lparr>canvasWithThumbnail :=
                                         AList.update (path canvasFile) (path nodeFile)
                                           (canvasWithThumbnail s)\<rparr>))
                        else nodes_loop v canvasFile nodes s)))"

text \<open>The \<open>try\<close> block for one canvas file, and its \<open>catch\<close>. A scan is taken
  to run to its end: other handlers that could run at its \<open>await\<close>s are not
  interleaved with it.\<close>

definition try_file :: "vault \<Rightarrow> TFile \<Rightarrow> scan_state \<Rightarrow> js_error + scan_state" where
  "try_file v canvasFile s =
     (case read v canvasFile of
        Inl e \<Rightarrow> Inl e
      | Inr canvasContent \<Rightarrow>
          (case JSON_parse v canvasContent of
             Inl e \<Rightarrow> Inl e
           | Inr canvasData \<Rightarrow>
               (case get_prop canvasData ''nodes'' of
                  Inl e \<Rightarrow> Inl e
                | Inr (Some (JArray nodes)) \<Rightarrow> nodes_loop v canvasFile nodes s
                | Inr _ \<Rightarrow> Inr s)))"

definition scan_file :: "vault \<Rightarrow> TFile \<Rightarrow> scan_state \<Rightarrow> scan_state" where
  "scan_file v canvasFile s =
     (case try_file v canvasFile s of
        Inl e \<Rightarrow> scan_log (ScanError (path canvasFile) e) s
      | Inr s' \<Rightarrow> s')"

definition scanCanvasFiles :: "vault \<Rightarrow> scan_state \<Rightarrow> scan_state" where
  "scanCanvasFiles v s0 =
     (let s1 = scan_log ScanStart s0;
          canvasFiles = filter (\<lambda>file. extension file = ''canvas'') (getFiles v);
          s2 = s1\<lparr>canvasWithThumbnail := []\<rparr>;
          s3 = fold (scan_file v) canvasFiles s2
      in scan_log (ScanDone (length (canvasWithThumbnail s3))) s3)"

section \<open>The update scheduler\<close>

text \<open>
  Time is counted in milliseconds. The host's timer table holds the pending timers;
  \<open>setTimeout\<close> adds one under a fresh identifier and \<open>clearTimeout\<close> removes the
  one with the given identifier, if it is still pending. The plugin keeps the last
  identifier it got in \<open>updateTimeout\<close>. \<open>passes\<close> records the times at which
  \<open>addCardThumbnails\<close> was invoked, \<open>scansStarted\<close> the times at which a timer
  started a scan.
\<close>

datatype callback = CallUpdateCardThumbnails | CallAddCardThumbnails | CallScanThenUpdate

record timer =
  timer_id :: nat
  due :: nat
  callback :: callback

record scheduler =
  now :: nat
  timers :: "timer list"
  nextTimerId :: nat
  updateTimeout :: "nat option"
  passes :: "nat list"
  scansStarted :: "nat list"

definition clearTimeout :: "nat option \<Rightarrow> scheduler \<Rightarrow> scheduler" where
  "clearTimeout tid p =
     (case tid of
        None \<Rightarrow> p
      | Some i \<Rightarrow> p\<lparr>timers := filter (\<lambda>t. timer_id t \<noteq> i) (timers p)\<rparr>)"

definition setTimeout :: "callback \<Rightarrow> nat \<Rightarrow> scheduler \<Rightarrow> nat \<times> scheduler" where
  "setTimeout cb delay p =
     (nextTimerId p,
      p\<lparr>timers := timers p @ [\<lparr>timer_id = nextTimerId p, due = now p + delay, callback = cb\<rparr>],
        nextTimerId := Suc (nextTimerId p)\<rparr>)"

definition updateCardThumbnails :: "scheduler \<Rightarrow> scheduler" where
  "updateCardThumbnails p =
     (case setTimeout CallAddCardThumbnails 200 (clearTimeout (updateTimeout p) p) of
        (i, p') \<Rightarrow> p'\<lparr>updateTimeout := Some i\<rparr>)"

definition scheduleUpdate :: "scheduler \<Rightarrow> scheduler" where
  "scheduleUpdate p =
     (case setTimeout CallUpdateCardThumbnails 500 (clearTimeout (updateTimeout p) p) of
        (i, p') \<Rightarrow> p'\<lparr>updateTimeout := Some i\<rparr>)"

definition scheduleCanvasUpdate :: "scheduler \<Rightarrow> scheduler" where
  "scheduleCanvasUpdate p =
     (case setTimeout CallScanThenUpdate 1000 (clearTimeout (updateTimeout p) p) of
        (i, p') \<Rightarrow> p'\<lparr>updateTimeout := Some i\<rparr>)"

text \<open>
  What a timer does when it fires. The scan started by \<open>scheduleCanvasUpdate\<close>'s
  timer is asynchronous: the callback returns at its first \<open>await\<close>, and the call of
  \<open>updateCardThumbnails\<close> that follows the scan is the later event \<open>ScanFinished\<close>.
\<close>

fun run_callback :: "callback \<Rightarrow> scheduler \<Rightarrow> scheduler" where
  "run_callback CallUpdateCardThumbnails p = updateCardThumbnails p"
| "run_callback CallAddCardThumbnails p = p\<lparr>passes := passes p @ [now p]\<rparr>"
| "run_callback CallScanThenUpdate p = p\<lparr>scansStarted := scansStarted p @ [now p]\<rparr>"

fun fire_all :: "timer list \<Rightarrow> scheduler \<Rightarrow> scheduler" where
  "fire_all [] p = p"
| "fire_all (t # ts) p =
     fire_all ts
       (if t \<in> set (timers p)
        then run_callback (callback t) (p\<lparr>timers := removeAll t (timers p)\<rparr>)
        else p)"

text \<open>One millisecond passes, and the timers that are due fire.\<close>

definition tick :: "scheduler \<Rightarrow> scheduler" where
  "tick p =
     (let p1 = p\<lparr>now := Suc (now p)\<rparr>
      in fire_all (filter (\<lambda>t. due t \<le> now p1) (timers p1)) p1)"

text \<open>
  The events of the plugin's life: a layout change or a mutation batch with a new card
  (\<open>scheduleUpdate\<close>), a modified canvas file (\<open>scheduleCanvasUpdate\<close>), the end of a
  scan (\<open>updateCardThumbnails\<close>), and the passing of a millisecond.
\<close>

datatype event = LayoutChange | CanvasModified | ScanFinished | Tick

fun step :: "event \<Rightarrow> scheduler \<Rightarrow> scheduler" where
  "step LayoutChange p = scheduleUpdate p"
| "step CanvasModified p = scheduleCanvasUpdate p"
| "step ScanFinished p = updateCardThumbnails p"
| "step Tick p = tick p"

definition run :: "event list \<Rightarrow> scheduler \<Rightarrow> scheduler" where
  "run evs p = fold step evs p"

definition initial :: scheduler where
  "initial =
     \<lparr>now = 0, timers = [], nextTimerId = 1, updateTimeout = None, passes = [],
      scansStarted = []\<rparr>"

section \<open>Unloading\<close>

text \<open>
  \<open>onunload\<close> cancels the pending timer when \<open>updateTimeout\<close> is truthy and strips
  the decorations; disconnecting the mutation observer, which is not modelled, is left
  out.
\<close>

definition onunload :: "scheduler \<times> world \<Rightarrow> scheduler \<times> world" where
  "onunload pw =
     (case pw of (p, w) \<Rightarrow>
        ((case updateTimeout p of
            None \<Rightarrow> p
          | Some i \<Rightarrow> if i = 0 then p else clearTimeout (Some i) p),
         onunload_document w))"

section \<open>Notions used to state the properties\<close>

text \<open>
  The cards of a container are its descendants of class \<open>bases-cards-item\<close>, in
  document order. The file-name element of a card is its first descendant whose
  \<open>data-property\<close> attribute is \<open>file.name\<close>, and the card's display text is the
  text content of that element. A card shows a key when the display text, with the
  white space at both ends removed, equals the key or contains it as a contiguous
  substring (\<^const>\<open>sublist\<close>); \<open>shows_key_untrimmed\<close> compares the display text as
  it stands.
\<close>

definition card_elements :: "(nat \<Rightarrow> element_state) \<Rightarrow> element \<Rightarrow> element list" where
  "card_elements st container =
     filter (\<lambda>e. ''bases-cards-item'' \<in> set (classList (st (ident e)))) (descendants container)"

definition name_element :: "(nat \<Rightarrow> element_state) \<Rightarrow> element \<Rightarrow> element option" where
  "name_element st c =
     find (\<lambda>e. map_of (attributes (st (ident e))) ''data-property'' = Some ''file.name'')
          (descendants c)"

definition display_text :: "(nat \<Rightarrow> element_state) \<Rightarrow> element \<Rightarrow> string option" where
  "display_text st c = map_option textContent (name_element st c)"

definition shows_key :: "(nat \<Rightarrow> element_state) \<Rightarrow> string \<Rightarrow> element \<Rightarrow> bool" where
  "shows_key st key c =
     (case display_text st c of
        None \<Rightarrow> False
      | Some t \<Rightarrow> trim t = key \<or> sublist key (trim t))"

definition shows_key_untrimmed :: "(nat \<Rightarrow> element_state) \<Rightarrow> string \<Rightarrow> element \<Rightarrow> bool" where
  "shows_key_untrimmed st key c =
     (case display_text st c of
        None \<Rightarrow> False
      | Some t \<Rightarrow> t = key \<or> sublist key t)"

text \<open>No element carries a marker attribute whose value is the empty string. The plugin
  writes canvas paths as markers, so this holds of every document it has worked on.\<close>

definition no_empty_marker :: "(nat \<Rightarrow> element_state) \<Rightarrow> bool" where
  "no_empty_marker st =
     (\<forall>i. map_of (attributes (st i)) ''data-canvas-thumbnail'' \<noteq> Some '''')"

text \<open>The cover of a card is its first descendant of class \<open>bases-cards-cover\<close>.\<close>

definition cover_element :: "(nat \<Rightarrow> element_state) \<Rightarrow> element \<Rightarrow> element option" where
  "cover_element st c =
     find (\<lambda>e. ''bases-cards-cover'' \<in> set (classList (st (ident e)))) (descendants c)"

text \<open>
  Two stores have the same shape when they agree on what the lookups read: the class
  list and the \<open>data-property\<close> attribute of every element.
\<close>

definition same_shape :: "(nat \<Rightarrow> element_state) \<Rightarrow> (nat \<Rightarrow> element_state) \<Rightarrow> bool" where
  "same_shape st st' =
     (\<forall>i. classList (st' i) = classList (st i) \<and>
          map_of (attributes (st' i)) ''data-property'' =
          map_of (attributes (st i)) ''data-property'')"

definition target_cover :: "(nat \<Rightarrow> element_state) \<Rightarrow> element \<Rightarrow> string \<Rightarrow> element option" where
  "target_cover st container canvasPath =
     (case findCardByFileName st container (getFileNameFromPath canvasPath) of
        None \<Rightarrow> None
      | Some cardElement \<Rightarrow> querySelector st (ClassSel ''bases-cards-cover'') cardElement)"

definition marked :: "(nat \<Rightarrow> element_state) \<Rightarrow> nat \<Rightarrow> bool" where
  "marked st i = truthy_attr (map_of (attributes (st i)) ''data-canvas-thumbnail'')"

text \<open>The cover element an entry of the map addresses, whether an entry finds a cover
  without a (truthy) marker, and a store in which no entry of the map does.\<close>

definition wants :: "(nat \<Rightarrow> element_state) \<Rightarrow> element \<Rightarrow> string \<Rightarrow> bool" where
  "wants st container canvasPath =
     (case target_cover st container canvasPath of
        None \<Rightarrow> False
      | Some coverElement \<Rightarrow> \<not> marked st (ident coverElement))"

definition not_found_report :: "(nat \<Rightarrow> element_state) \<Rightarrow> element \<Rightarrow> string \<times> string \<Rightarrow> console_msg list" where
  "not_found_report st container entry =
     (if findCardByFileName st container (getFileNameFromPath (fst entry)) = None
      then [CardNotFound (getFileNameFromPath (fst entry))] else [])"

definition no_adapter_report :: "(nat \<Rightarrow> element_state) \<Rightarrow> element \<Rightarrow> string \<times> string \<Rightarrow> console_msg list" where
  "no_adapter_report st container entry =
     (if wants st container (fst entry)
      then [NoAdapterError, ThumbnailSet (getFileNameFromPath (fst entry)) (snd entry)]
      else not_found_report st container entry)"

definition settled :: "(nat \<Rightarrow> element_state) \<Rightarrow> element \<Rightarrow> (string \<times> string) list \<Rightarrow> bool" where
  "settled st cont data = (\<forall>e \<in> set data. \<not> wants st cont (fst e))"


text \<open>
  A node of type \<open>file\<close> whose \<open>file\<close> is a path that the vault resolves to a file
  with a recognised image extension, compared in lower case; the result is that path.
\<close>

definition image_ref :: "vault \<Rightarrow> json \<Rightarrow> string option" where
  "image_ref v node =
     (case node of
        JObject kvs \<Rightarrow>
          (if map_of kvs ''type'' = Some (JString ''file'') then
             (case map_of kvs ''file'' of
                Some (JString p) \<Rightarrow>
                  (case getAbstractFileByPath v (JString p) of
                     Some (File nodeFile) \<Rightarrow>
                       if toLowerCase (extension nodeFile) \<in> set pictureExtensions
                       then Some p else None
                   | _ \<Rightarrow> None)
              | _ \<Rightarrow> None)
           else None)
      | _ \<Rightarrow> None)"

text \<open>The node list of a canvas file that can be read and parses as JSON with a
  \<open>nodes\<close> array.\<close>

definition doc_nodes :: "vault \<Rightarrow> TFile \<Rightarrow> json list option" where
  "doc_nodes v canvasFile =
     (case read v canvasFile of
        Inl e \<Rightarrow> None
      | Inr canvasContent \<Rightarrow>
          (case JSON_parse v canvasContent of
             Inr (JObject kvs) \<Rightarrow>
               (case map_of kvs ''nodes'' of Some (JArray nodes) \<Rightarrow> Some nodes | _ \<Rightarrow> None)
           | _ \<Rightarrow> None))"

text \<open>
  Assumptions on the vault: a lookup that succeeds returns the entry stored under the
  path it was given, a non-empty string; and the listed files have distinct paths.
\<close>

fun abstract_path :: "TAbstractFile \<Rightarrow> string" where
  "abstract_path (File f) = path f"
| "abstract_path (Folder p) = p"

definition resolves_by_path :: "vault \<Rightarrow> bool" where
  "resolves_by_path v =
     (\<forall>x t. getAbstractFileByPath v x = Some t \<longrightarrow>
            x = JString (abstract_path t) \<and> abstract_path t \<noteq> '''')"

definition distinct_paths :: "vault \<Rightarrow> bool" where
  "distinct_paths v = distinct (map path (getFiles v))"

text \<open>
  A node of type \<open>file\<close> whose \<open>file\<close> is a path that the vault resolves to a
  folder. In a node list the folder references are shadowed when none of them comes
  before the first element that is \<open>null\<close> or an image node; a canvas file has no
  early folder reference when that holds of its node list, if it has one.
\<close>

definition folder_ref :: "vault \<Rightarrow> json \<Rightarrow> bool" where
  "folder_ref v node =
     (case node of
        JObject kvs \<Rightarrow>
          map_of kvs ''type'' = Some (JString ''file'') \<and>
          (case map_of kvs ''file'' of
             Some (JString p) \<Rightarrow>
               (case getAbstractFileByPath v (JString p) of
                  Some (Folder q) \<Rightarrow> True
                | _ \<Rightarrow> False)
           | _ \<Rightarrow> False)
      | _ \<Rightarrow> False)"

fun folders_shadowed :: "vault \<Rightarrow> json list \<Rightarrow> bool" where
  "folders_shadowed v [] = True"
| "folders_shadowed v (n # ns) =
     (n = JNull \<or> image_ref v n \<noteq> None \<or> (\<not> folder_ref v n \<and> folders_shadowed v ns))"

definition no_early_folder_ref :: "vault \<Rightarrow> TFile \<Rightarrow> bool" where
  "no_early_folder_ref v canvasFile =
     (case doc_nodes v canvasFile of
        None \<Rightarrow> True
      | Some nodes \<Rightarrow> folders_shadowed v nodes)"

text \<open>
  The first node of a list that decides the outcome of the loop, the entry a canvas
  file contributes, and the state after an entry has been stored and logged.
\<close>

definition first_decisive :: "vault \<Rightarrow> json list \<Rightarrow> json option" where
  "first_decisive v nodes = find (\<lambda>n. n = JNull \<or> image_ref v n \<noteq> None) nodes"

definition file_entry :: "vault \<Rightarrow> TFile \<Rightarrow> string option" where
  "file_entry v canvasFile =
     (case doc_nodes v canvasFile of
        None \<Rightarrow> None
      | Some nodes \<Rightarrow>
          (case first_decisive v nodes of None \<Rightarrow> None | Some n \<Rightarrow> image_ref v n))"

definition add_entry :: "string \<Rightarrow> string \<Rightarrow> scan_state \<Rightarrow> scan_state" where
  "add_entry k p s =
     scan_log (FoundThumbnail k p)
       (s\<lparr>canvasWithThumbnail := AList.update k p (canvasWithThumbnail s)\<rparr>)"


text \<open>
  A burst of calls of \<open>scheduleUpdate\<close>: a first call, then for each gap that many
  milliseconds and another call.
\<close>

definition burst :: "nat list \<Rightarrow> event list" where
  "burst gaps = LayoutChange # concat (map (\<lambda>g. replicate g Tick @ [LayoutChange]) gaps)"

text \<open>
  The scheduler's invariant: every pending timer is due in the future and has an
  identifier already handed out, and there is no pending timer or exactly one, the one
  \<open>updateTimeout\<close> names.
\<close>

definition sched_inv :: "scheduler \<Rightarrow> bool" where
  "sched_inv p =
     ((\<forall>t \<in> set (timers p). timer_id t < nextTimerId p \<and> now p < due t) \<and>
      (timers p = [] \<or> (\<exists>t. timers p = [t] \<and> updateTimeout p = Some (timer_id t))))"

text \<open>The state after a timer has been armed in place of the pending one, and a state
  in which the timer of \<open>scheduleUpdate\<close> has just been armed.\<close>

definition armed :: "callback \<Rightarrow> nat \<Rightarrow> scheduler \<Rightarrow> scheduler" where
  "armed cb delay p =
     p\<lparr>timers := [\<lparr>timer_id = nextTimerId p, due = now p + delay, callback = cb\<rparr>],
       nextTimerId := Suc (nextTimerId p), updateTimeout := Some (nextTimerId p)\<rparr>"

definition primed :: "scheduler \<Rightarrow> bool" where
  "primed q =
     (\<exists>i. timers q = [\<lparr>timer_id = i, due = now q + 500, callback = CallUpdateCardThumbnails\<rparr>] \<and>
          updateTimeout q = Some i \<and> i < nextTimerId q)"

text \<open>
  What clearing does to one decorated element, in \<open>clearAllThumbnails\<close> and in
  \<open>onunload\<close>, and the element states that result.
\<close>

definition clear_one :: "element \<Rightarrow> world \<Rightarrow> world" where
  "clear_one el s =
     removeAttribute el ''data-image-path''
       (removeAttribute el ''data-canvas-thumbnail'' (setStyle el ''background-image'' '''' s))"

definition unload_one :: "element \<Rightarrow> world \<Rightarrow> world" where
  "unload_one el s =
     removeAttribute el ''data-canvas-thumbnail'' (setStyle el ''background-image'' '''' s)"

definition cleared :: "element_state \<Rightarrow> element_state" where
  "cleared st =
     st\<lparr>style := AList.delete ''background-image'' (style st),
        attributes := AList.delete ''data-image-path''
                        (AList.delete ''data-canvas-thumbnail'' (attributes st))\<rparr>"

definition unmarked :: "element_state \<Rightarrow> element_state" where
  "unmarked st =
     st\<lparr>style := AList.delete ''background-image'' (style st),
        attributes := AList.delete ''data-canvas-thumbnail'' (attributes st)\<rparr>"

section \<open>A sample cards view\<close>

text \<open>A container with two cards, named \<open>Beta\<close> and \<open>Alpha Draft\<close>, each with a cover.\<close>

definition plain :: element_state where
  "plain = \<lparr>classList = [], attributes = [], style = []\<rparr>"

definition sample_elems :: "nat \<Rightarrow> element_state" where
  "sample_elems = (\<lambda>i. plain)
     (1 := plain\<lparr>classList := [''bases-cards-container'']\<rparr>,
      2 := plain\<lparr>classList := [''bases-cards-item'']\<rparr>,
      3 := plain\<lparr>classList := [''bases-cards-cover'']\<rparr>,
      4 := plain\<lparr>attributes := [(''data-property'', ''file.name'')]\<rparr>,
      5 := plain\<lparr>classList := [''bases-cards-item'']\<rparr>,
      6 := plain\<lparr>classList := [''bases-cards-cover'']\<rparr>,
      7 := plain\<lparr>attributes := [(''data-property'', ''file.name'')]\<rparr>)"

definition card_beta :: element where
  "card_beta =
     Element 2 [ElementNode (Element 3 []), ElementNode (Element 4 [TextNode ''Beta''])]"

definition card_alpha :: element where
  "card_alpha =
     Element 5 [ElementNode (Element 6 []),
                ElementNode (Element 7 [TextNode '' Alpha Draft ''])]"

definition sample_container :: element where
  "sample_container = Element 1 [ElementNode card_beta, ElementNode card_alpha]"

definition sample_world :: world where
  "sample_world =
     \<lparr>document = Element 0 [ElementNode sample_container], elems = sample_elems,
      cssAccepts = (\<lambda>p v. True), console = []\<rparr>"

definition sample_adapter :: adapter where
  "sample_adapter = FileSystemAdapter (\<lambda>p. ''app://local/'' @ p)"

definition alpha_data :: "(string \<times> string) list" where
  "alpha_data = [(''Projects/Alpha.canvas'', ''Projects/cover.png'')]"

definition three_data :: "(string \<times> string) list" where
  "three_data =
     [(''Projects/Alpha.canvas'', ''Projects/cover.png''),
      (''Gamma.canvas'', ''g.png''),
      (''Beta.canvas'', ''b.png'')]"

section \<open>A cards view with several matching cards\<close>

text \<open>
  A container with four cards: one without a file-name element, one named
  \<open>Alpha Draft\<close>, one named \<open>Alpha\<close> whose file-name element is nested in a wrapper,
  and one whose file-name text is \<open>Gamma\<close> with a space on either side.
\<close>

definition gallery_elems :: "nat \<Rightarrow> element_state" where
  "gallery_elems = (\<lambda>i. plain)
     (20 := plain\<lparr>classList := [''bases-cards-container'']\<rparr>,
      21 := plain\<lparr>classList := [''bases-cards-item'']\<rparr>,
      22 := plain\<lparr>classList := [''bases-cards-cover'']\<rparr>,
      23 := plain\<lparr>classList := [''bases-cards-item'']\<rparr>,
      24 := plain\<lparr>classList := [''bases-cards-cover'']\<rparr>,
      25 := plain\<lparr>attributes := [(''data-property'', ''file.name'')]\<rparr>,
      26 := plain\<lparr>classList := [''bases-cards-item'']\<rparr>,
      27 := plain\<lparr>classList := [''bases-cards-cover'']\<rparr>,
      28 := plain\<lparr>attributes := [(''data-property'', ''file.name'')]\<rparr>,
      29 := plain\<lparr>classList := [''bases-cards-item'']\<rparr>,
      30 := plain\<lparr>classList := [''bases-cards-cover'']\<rparr>,
      31 := plain\<lparr>attributes := [(''data-property'', ''file.name'')]\<rparr>)"

definition card_blank :: element where
  "card_blank = Element 21 [ElementNode (Element 22 []), TextNode ''Alpha'']"

definition card_draft :: element where
  "card_draft =
     Element 23 [ElementNode (Element 24 []), ElementNode (Element 25 [TextNode ''Alpha Draft''])]"

definition card_exact :: element where
  "card_exact =
     Element 26 [ElementNode (Element 27 []),
                 ElementNode (Element 32 [TextNode ''by '',
                                          ElementNode (Element 28 [TextNode ''Alpha''])])]"

definition card_padded :: element where
  "card_padded =
     Element 29 [ElementNode (Element 30 []), ElementNode (Element 31 [TextNode '' Gamma ''])]"

definition gallery_container :: element where
  "gallery_container =
     Element 20 [ElementNode card_blank, ElementNode card_draft, ElementNode card_exact,
                 ElementNode card_padded]"

definition gallery_world :: world where
  "gallery_world =
     \<lparr>document = Element 0 [ElementNode gallery_container], elems = gallery_elems,
      cssAccepts = (\<lambda>p v. True), console = []\<rparr>"

definition shadow_data :: "(string \<times> string) list" where
  "shadow_data = [(''Alpha Draft.canvas'', ''a.png''), (''Projects/.canvas'', ''x.png'')]"

definition draft_data :: "(string \<times> string) list" where
  "draft_data = [(''Alpha Draft.canvas'', ''a.png'')]"

section \<open>A sample vault\<close>

text \<open>
  Three canvas files and two other files. \<open>Broken.canvas\<close> does not parse;
  \<open>Projects/Alpha.canvas\<close> has two file nodes, an image and a PDF; the node list of
  \<open>Nulls.canvas\<close> is \<open>null\<close> followed by the same image node. \<open>JSON_parse\<close> is
  given as a table on the three contents.
\<close>

definition broken_file :: TFile where
  "broken_file = \<lparr>path = ''Broken.canvas'', extension = ''canvas''\<rparr>"

definition alpha_file :: TFile where
  "alpha_file = \<lparr>path = ''Projects/Alpha.canvas'', extension = ''canvas''\<rparr>"

definition nulls_file :: TFile where
  "nulls_file = \<lparr>path = ''Nulls.canvas'', extension = ''canvas''\<rparr>"

definition cover_file :: TFile where
  "cover_file = \<lparr>path = ''Projects/cover.PNG'', extension = ''PNG''\<rparr>"

definition pdf_file :: TFile where
  "pdf_file = \<lparr>path = ''Projects/other.pdf'', extension = ''pdf''\<rparr>"

definition cover_node :: json where
  "cover_node = JObject [(''type'', JString ''file''), (''file'', JString ''Projects/cover.PNG'')]"

definition pdf_node :: json where
  "pdf_node = JObject [(''type'', JString ''file''), (''file'', JString ''Projects/other.pdf'')]"

definition sample_vault :: vault where
  "sample_vault =
     \<lparr>getFiles = [broken_file, alpha_file, nulls_file, cover_file, pdf_file],
      read = (\<lambda>f. if path f = ''Broken.canvas'' then Inr ''{nodes''
                   else if path f = ''Projects/Alpha.canvas'' then Inr ''alpha''
                   else if path f = ''Nulls.canvas'' then Inr ''nulls''
                   else Inl ReadError),
      JSON_parse = (\<lambda>c. if c = ''alpha'' then Inr (JObject [(''nodes'', JArray [cover_node, pdf_node])])
                         else if c = ''nulls'' then Inr (JObject [(''nodes'', JArray [JNull, cover_node])])
                         else Inl SyntaxError),
      getAbstractFileByPath =
        (\<lambda>x. if x = JString ''Projects/cover.PNG'' then Some (File cover_file)
              else if x = JString ''Projects/other.pdf'' then Some (File pdf_file)
              else None)\<rparr>"

definition stale_state :: scan_state where
  "stale_state = \<lparr>canvasWithThumbnail = [(''Old.canvas'', ''old.png'')], scan_console = []\<rparr>"

text \<open>The map the plugin holds after scanning the sample vault.\<close>

definition scanned_data :: "(string \<times> string) list" where
  "scanned_data = canvasWithThumbnail (scanCanvasFiles sample_vault stale_state)"

section \<open>A vault with a folder\<close>

text \<open>
  The lookup of this vault also resolves the folder \<open>Projects\<close>. The node list of
  \<open>Projects/Plan.canvas\<close> is the PDF node, the image node and a node that refers
  to the folder.
\<close>

definition plan_file :: TFile where
  "plan_file = \<lparr>path = ''Projects/Plan.canvas'', extension = ''canvas''\<rparr>"

definition folder_node :: json where
  "folder_node = JObject [(''type'', JString ''file''), (''file'', JString ''Projects'')]"

definition folder_vault :: vault where
  "folder_vault =
     \<lparr>getFiles = [plan_file, cover_file, pdf_file],
      read = (\<lambda>f. if path f = ''Projects/Plan.canvas'' then Inr ''plan'' else Inl ReadError),
      JSON_parse = (\<lambda>c. if c = ''plan''
                         then Inr (JObject [(''nodes'', JArray [pdf_node, cover_node, folder_node])])
                         else Inl SyntaxError),
      getAbstractFileByPath =
        (\<lambda>x. if x = JString ''Projects/cover.PNG'' then Some (File cover_file)
              else if x = JString ''Projects/other.pdf'' then Some (File pdf_file)
              else if x = JString ''Projects'' then Some (Folder ''Projects'')
              else None)\<rparr>"

section \<open>Properties of the string functions\<close>

lemma startsWith_prefix: "startsWith s p = prefix p s"
  by (induction s p rule: startsWith.induct) auto

lemma str_includes_sublist: "str_includes s p = sublist p s"
  by (induction s) (simp_all add: startsWith_prefix sublist_Cons_right)

lemma str_includes_append: "str_includes s p = (\<exists>u v. s = u @ p @ v)"
  by (simp add: str_includes_sublist sublist_def)

lemma str_split_nonempty: "str_split sep s \<noteq> []"
  by (induction s) (auto split: list.splits)

lemma str_split_append:
  "str_split sep (d @ sep # s) = str_split sep d @ str_split sep s"
proof (induction d)
  case Nil
  show ?case by simp
next
  case (Cons c d)
  obtain seg segs where "str_split sep d = seg # segs"
    using str_split_nonempty[of sep d] by (cases "str_split sep d") auto
  with Cons show ?case by simp
qed

lemma getFileNameFromPath_dir:
  "getFileNameFromPath (d @ CHR ''/'' # s) = getFileNameFromPath s"
  by (simp add: getFileNameFromPath_def pop_def str_split_nonempty str_split_append)

lemma getFileNameFromPath_Alpha:
  "getFileNameFromPath ''Projects/Alpha.canvas'' = ''Alpha''"
  by (simp add: getFileNameFromPath_def pop_def)

lemma getFileNameFromPath_bare_suffix:
  "getFileNameFromPath (d @ ''/.canvas'') = ''''"
  using getFileNameFromPath_dir[of d "''.canvas''"]
  by (simp add: getFileNameFromPath_def pop_def)

lemma str_split_no_sep: "sep \<notin> set s \<Longrightarrow> str_split sep s = [s]"
  by (induction s) auto

lemma replace_suffix_plain:
  "CHR ''.'' \<notin> set base \<Longrightarrow> replace ''.canvas'' '''' (base @ ''.canvas'') = base"
  by (induction base) auto

text \<open>For a file name without a further dot the key is the name without its suffix.\<close>

lemma getFileNameFromPath_plain_name:
  assumes "CHR ''.'' \<notin> set base" "CHR ''/'' \<notin> set base"
  shows "getFileNameFromPath (dir @ ''/'' @ base @ ''.canvas'') = base"
proof -
  have "CHR ''/'' \<notin> set (base @ ''.canvas'')" using assms(2) by simp
  then have "str_split (CHR ''/'') (base @ ''.canvas'') = [base @ ''.canvas'']"
    by (rule str_split_no_sep)
  then have "getFileNameFromPath (base @ ''.canvas'') = base"
    using replace_suffix_plain[OF assms(1)] by (simp add: getFileNameFromPath_def pop_def)
  then show ?thesis
    using getFileNameFromPath_dir[of dir "base @ ''.canvas''"] by simp
qed

text \<open>
  C5. The key is meant to be the final path segment without its \<open>.canvas\<close> suffix.
  \<open>replace\<close> removes the first occurrence of \<open>.canvas\<close> in the segment, which need
  not be the suffix: for the canvas file \<open>Notes/plan.canvas.old.canvas\<close> the key is
  \<open>plan.old.canvas\<close>, not \<open>plan.canvas.old\<close>.
\<close>

theorem getFileNameFromPath_first_occurrence:
  "getFileNameFromPath ''Notes/plan.canvas.old.canvas'' = ''plan.old.canvas''"
  by (simp add: getFileNameFromPath_def pop_def)

section \<open>Properties of the card lookup\<close>

text \<open>What \<open>trim\<close> removes is white space at the two ends, and what it leaves neither
  starts nor ends with white space.\<close>

lemma rev_split: "xs = rev (dropWhile P (rev xs)) @ rev (takeWhile P (rev xs))"
proof -
  have "rev xs = takeWhile P (rev xs) @ dropWhile P (rev xs)" by simp
  then have "rev (rev xs) = rev (takeWhile P (rev xs) @ dropWhile P (rev xs))" by (rule arg_cong)
  then show ?thesis by (simp only: rev_rev_ident rev_append)
qed

lemma dropWhile_trim:
  "dropWhile isWhiteSpace s =
     trim s @ rev (takeWhile isWhiteSpace (rev (dropWhile isWhiteSpace s)))"
  unfolding trim_def by (rule rev_split)

lemma trim_decomposition:
  "\<exists>a b. s = a @ trim s @ b \<and> (\<forall>c \<in> set a. isWhiteSpace c) \<and> (\<forall>c \<in> set b. isWhiteSpace c)"
proof -
  let ?a = "takeWhile isWhiteSpace s"
  let ?b = "rev (takeWhile isWhiteSpace (rev (dropWhile isWhiteSpace s)))"
  have "s = ?a @ dropWhile isWhiteSpace s" by simp
  then have "s = ?a @ trim s @ ?b" using dropWhile_trim[of s] by metis
  moreover have "\<forall>c \<in> set ?a. isWhiteSpace c" by (auto dest: set_takeWhileD)
  moreover have "\<forall>c \<in> set ?b. isWhiteSpace c" by (auto dest: set_takeWhileD)
  ultimately show ?thesis by blast
qed

lemma trim_ends:
  assumes "trim s \<noteq> []"
  shows "\<not> isWhiteSpace (hd (trim s))" "\<not> isWhiteSpace (last (trim s))"
proof -
  let ?d = "dropWhile isWhiteSpace s"
  let ?r = "dropWhile isWhiteSpace (rev ?d)"
  have ne: "?d \<noteq> []"
  proof
    assume "?d = []"
    then have "trim s = []" unfolding trim_def by (simp only: rev.simps dropWhile.simps)
    with assms show False by simp
  qed
  then have "\<not> isWhiteSpace (hd ?d)" by (rule hd_dropWhile)
  moreover have "hd (trim s @ rev (takeWhile isWhiteSpace (rev ?d))) = hd (trim s)"
    using assms by (rule hd_append2)
  then have "hd ?d = hd (trim s)" using dropWhile_trim[of s] by metis
  ultimately show "\<not> isWhiteSpace (hd (trim s))" by simp
  have r: "?r \<noteq> []" using assms by (simp add: trim_def)
  then have "\<not> isWhiteSpace (hd ?r)" by (rule hd_dropWhile)
  then show "\<not> isWhiteSpace (last (trim s))" using r by (simp add: trim_def last_rev)
qed

lemma first_of_filter: "(case filter P xs of [] \<Rightarrow> None | x # _ \<Rightarrow> Some x) = find P xs"
  by (induction xs) auto

lemma querySelectorAll_cards:
  "querySelectorAll st (ClassSel ''bases-cards-item'') container = card_elements st container"
  by (simp add: querySelectorAll_def card_elements_def cong: filter_cong)

lemma cardFileName_display:
  "cardFileName st c = map_option trim (display_text st c)"
proof -
  have "querySelector st (AttrEqSel ''data-property'' ''file.name'') c = name_element st c"
    by (simp add: querySelector_def querySelectorAll_def name_element_def first_of_filter
          cong: filter_cong)
  then show ?thesis
    by (simp add: cardFileName_def display_text_def split: option.splits)
qed

lemma findCard_loop_find:
  "findCard_loop st cards key = find (shows_key st key) cards"
  by (induction cards)
     (auto simp: shows_key_def cardFileName_display str_includes_sublist split: option.splits)

lemma find_first_index:
  "find P xs = Some x \<longleftrightarrow> (\<exists>i<length xs. xs ! i = x \<and> P x \<and> (\<forall>j<i. \<not> P (xs ! j)))"
  by (auto simp: find_Some_iff)

lemmas sample_defs = plain_def sample_elems_def card_beta_def card_alpha_def
  sample_container_def sample_world_def

lemmas query_defs = findCardByFileName_def querySelectorAll_def descendants_def
  cardFileName_def querySelector_def trim_def isWhiteSpace_def

text \<open>
  C6, as stated, fails when the key starts or ends with white space: the code compares
  the key with the trimmed display text. The display text of the last card of the
  gallery contains the key of \<open>Notes/ Gamma.canvas\<close>, yet the lookup finds no card.
\<close>

theorem untrimmed_match_is_not_found:
  "getFileNameFromPath ''Notes/ Gamma.canvas'' = '' Gamma'' \<and>
   card_elements gallery_elems gallery_container =
     [card_blank, card_draft, card_exact, card_padded] \<and>
   display_text gallery_elems card_padded = Some '' Gamma '' \<and>
   shows_key_untrimmed gallery_elems '' Gamma'' card_padded \<and>
   findCardByFileName gallery_elems gallery_container '' Gamma'' = None"
  by code_simp

text \<open>
  C6, amended. The lookup returns the first card, in document order, whose file-name
  display text, with the white space at its ends removed, equals or contains the key,
  and no card exactly when no card of the container shows the key in that way.
\<close>

theorem findCardByFileName_first_match:
  "(findCardByFileName st container key = Some c \<longleftrightarrow>
      (\<exists>i < length (card_elements st container).
         card_elements st container ! i = c \<and>
         shows_key st key c \<and>
         (\<forall>j<i. \<not> shows_key st key (card_elements st container ! j)))) \<and>
   (findCardByFileName st container key = None \<longleftrightarrow>
      (\<forall>c' \<in> set (card_elements st container). \<not> shows_key st key c'))"
  unfolding findCardByFileName_def findCard_loop_find querySelectorAll_cards
  by (auto simp: find_first_index find_None_iff)

theorem findCardByFileName_first_match_witness:
  "findCardByFileName gallery_elems gallery_container ''Alpha'' = Some card_draft \<and>
   findCardByFileName gallery_elems gallery_container ''Gamma'' = Some card_padded \<and>
   findCardByFileName gallery_elems gallery_container ''Delta'' = None"
proof -
  have cards: "card_elements gallery_elems gallery_container =
                 [card_blank, card_draft, card_exact, card_padded]"
    by code_simp
  have a: "\<not> shows_key gallery_elems ''Alpha'' card_blank"
    "shows_key gallery_elems ''Alpha'' card_draft"
    "shows_key gallery_elems ''Alpha'' card_exact"
    by code_simp+
  have g: "\<not> shows_key gallery_elems ''Gamma'' card_blank"
    "\<not> shows_key gallery_elems ''Gamma'' card_draft"
    "\<not> shows_key gallery_elems ''Gamma'' card_exact"
    "shows_key gallery_elems ''Gamma'' card_padded"
    by code_simp+
  have d: "\<not> shows_key gallery_elems ''Delta'' card_blank"
    "\<not> shows_key gallery_elems ''Delta'' card_draft"
    "\<not> shows_key gallery_elems ''Delta'' card_exact"
    "\<not> shows_key gallery_elems ''Delta'' card_padded"
    by code_simp+
  have ea: "\<exists>i < length (card_elements gallery_elems gallery_container).
         card_elements gallery_elems gallery_container ! i = card_draft \<and>
         shows_key gallery_elems ''Alpha'' card_draft \<and>
         (\<forall>j<i. \<not> shows_key gallery_elems ''Alpha''
                    (card_elements gallery_elems gallery_container ! j))"
    using a by (intro exI[of _ 1]) (simp add: cards)
  have eg: "\<exists>i < length (card_elements gallery_elems gallery_container).
         card_elements gallery_elems gallery_container ! i = card_padded \<and>
         shows_key gallery_elems ''Gamma'' card_padded \<and>
         (\<forall>j<i. \<not> shows_key gallery_elems ''Gamma''
                    (card_elements gallery_elems gallery_container ! j))"
    using g by (intro exI[of _ 3]) (simp add: cards less_Suc_eq numeral_3_eq_3)
  have ed: "\<forall>c' \<in> set (card_elements gallery_elems gallery_container).
              \<not> shows_key gallery_elems ''Delta'' c'"
    using d by (simp add: cards)
  show ?thesis
    using findCardByFileName_first_match[of gallery_elems gallery_container "''Alpha''" card_draft]
      findCardByFileName_first_match[of gallery_elems gallery_container "''Gamma''" card_padded]
      findCardByFileName_first_match[of gallery_elems gallery_container "''Delta''" card_draft]
      ea eg ed
    by blast
qed

section \<open>Properties of the decoration pass\<close>

lemma same_shape_refl: "same_shape st st"
  by (simp add: same_shape_def)

lemma same_shape_trans: "same_shape a b \<Longrightarrow> same_shape b c \<Longrightarrow> same_shape a c"
  by (simp add: same_shape_def)

lemma qsa_class_shape:
  "same_shape st st' \<Longrightarrow> querySelectorAll st' (ClassSel c) e = querySelectorAll st (ClassSel c) e"
  by (simp add: querySelectorAll_def same_shape_def cong: filter_cong)

lemma qs_class_shape:
  "same_shape st st' \<Longrightarrow> querySelector st' (ClassSel c) e = querySelector st (ClassSel c) e"
  by (simp add: querySelector_def qsa_class_shape)

lemma cardFileName_shape:
  "same_shape st st' \<Longrightarrow> cardFileName st' e = cardFileName st e"
  by (simp add: cardFileName_def querySelector_def querySelectorAll_def same_shape_def cong: filter_cong)

lemma findCard_loop_shape:
  "same_shape st st' \<Longrightarrow> findCard_loop st' cards k = findCard_loop st cards k"
  by (induction cards) (auto simp: cardFileName_shape split: option.splits)

lemma findCard_shape:
  "same_shape st st' \<Longrightarrow> findCardByFileName st' e k = findCardByFileName st e k"
  by (simp add: findCardByFileName_def findCard_loop_shape qsa_class_shape)

lemma target_cover_shape:
  "same_shape st st' \<Longrightarrow> target_cover st' e cp = target_cover st e cp"
  by (simp add: target_cover_def findCard_shape qs_class_shape split: option.splits)

lemma container_shape:
  "document w' = document w \<Longrightarrow> same_shape (elems w) (elems w') \<Longrightarrow>
   document_querySelector w' (ClassSel c) = document_querySelector w (ClassSel c)"
  by (simp add: document_querySelector_def document_querySelectorAll_def same_shape_def cong: filter_cong)

(* effect of primitive operations *)
lemma log_fields [simp]:
  "document (log m w) = document w" "elems (log m w) = elems w"
  "cssAccepts (log m w) = cssAccepts w" "console (log m w) = console w @ [m]"
  by (simp_all add: log_def)

lemma setAttribute_fields [simp]:
  "document (setAttribute e a v w) = document w"
  "cssAccepts (setAttribute e a v w) = cssAccepts w"
  "console (setAttribute e a v w) = console w"
  by (simp_all add: setAttribute_def)

lemma setStyle_fields [simp]:
  "document (setStyle e p v w) = document w"
  "cssAccepts (setStyle e p v w) = cssAccepts w"
  "console (setStyle e p v w) = console w"
  by (simp_all add: setStyle_def)

lemma removeAttribute_fields [simp]:
  "document (removeAttribute e a w) = document w"
  "cssAccepts (removeAttribute e a w) = cssAccepts w"
  "console (removeAttribute e a w) = console w"
  by (simp_all add: removeAttribute_def)

lemma setStyle_elems:
  "classList (elems (setStyle e p v w) i) = classList (elems w i)"
  "attributes (elems (setStyle e p v w) i) = attributes (elems w i)"
  "i \<noteq> ident e \<Longrightarrow> elems (setStyle e p v w) i = elems w i"
  by (simp_all add: setStyle_def)

lemma setAttribute_elems:
  "classList (elems (setAttribute e a v w) i) = classList (elems w i)"
  "style (elems (setAttribute e a v w) i) = style (elems w i)"
  "i \<noteq> ident e \<Longrightarrow> elems (setAttribute e a v w) i = elems w i"
  "map_of (attributes (elems (setAttribute e a v w) i)) b =
     (if i = ident e \<and> b = a then Some v else map_of (attributes (elems w i)) b)"
  by (simp_all add: setAttribute_def update_conv')

lemma setCardThumbnail_fields [simp]:
  "document (setCardThumbnail adp ip e cp w) = document w"
  "cssAccepts (setCardThumbnail adp ip e cp w) = cssAccepts w"
  by (simp_all add: setCardThumbnail_def Let_def split: adapter.splits)

lemma setCardThumbnail_attr:
  "map_of (attributes (elems (setCardThumbnail (FileSystemAdapter r) ip e cp w) i)) b =
     (if i = ident e \<and> b = ''data-canvas-thumbnail'' then Some cp
      else if i = ident e \<and> b = ''data-image-path'' then Some ip
      else map_of (attributes (elems w i)) b)"
  by (simp add: setCardThumbnail_def Let_def setAttribute_elems setStyle_elems)

lemma setCardThumbnail_classList:
  "classList (elems (setCardThumbnail adp ip e cp w) i) = classList (elems w i)"
  by (simp add: setCardThumbnail_def Let_def setAttribute_elems setStyle_elems split: adapter.splits)

lemma setCardThumbnail_other:
  "i \<noteq> ident e \<Longrightarrow> elems (setCardThumbnail adp ip e cp w) i = elems w i"
  by (simp add: setCardThumbnail_def Let_def setAttribute_elems setStyle_elems split: adapter.splits)

lemma setCardThumbnail_no_adapter:
  "setCardThumbnail OtherAdapter ip e cp w = log NoAdapterError w"
  by (simp add: setCardThumbnail_def)

lemma setCardThumbnail_shape:
  "same_shape (elems w) (elems (setCardThumbnail adp ip e cp w))"
proof (cases adp)
  case (FileSystemAdapter r)
  then show ?thesis
    by (simp add: same_shape_def setCardThumbnail_classList setCardThumbnail_attr)
next
  case OtherAdapter
  then show ?thesis by (simp add: setCardThumbnail_no_adapter same_shape_refl)
qed

lemma step_decorate:
  "target_cover (elems w) cont cp = Some c \<Longrightarrow> \<not> marked (elems w) (ident c) \<Longrightarrow>
   forEach_body adp cont (cp, ip) (w, n) =
     (log (ThumbnailSet (getFileNameFromPath cp) ip) (setCardThumbnail adp ip c cp w), n + 1)"
  by (auto simp: forEach_body_def target_cover_def marked_def getAttribute_def Let_def
           split: option.splits)

lemma step_skip_marked:
  "target_cover (elems w) cont cp = Some c \<Longrightarrow> marked (elems w) (ident c) \<Longrightarrow>
   forEach_body adp cont (cp, ip) (w, n) = (w, n)"
  by (auto simp: forEach_body_def target_cover_def marked_def getAttribute_def Let_def
           split: option.splits)

lemma step_no_target:
  "target_cover (elems w) cont cp = None \<Longrightarrow>
   forEach_body adp cont (cp, ip) (w, n) =
     (w\<lparr>console := console w @ not_found_report (elems w) cont (cp, ip)\<rparr>, n)"
  by (auto simp: forEach_body_def target_cover_def not_found_report_def Let_def log_def
           split: option.splits)

lemma step_cases:
  obtains (decorate) c where "target_cover (elems w) cont cp = Some c" "\<not> marked (elems w) (ident c)"
  | (skip) c where "target_cover (elems w) cont cp = Some c" "marked (elems w) (ident c)"
  | (none) "target_cover (elems w) cont cp = None"
  by (cases "target_cover (elems w) cont cp") auto

lemma step_document:
  "document (fst (forEach_body adp cont e (w, n))) = document w"
  "cssAccepts (fst (forEach_body adp cont e (w, n))) = cssAccepts w"
  by (cases e; cases rule: step_cases[of w cont "fst e"];
      simp add: step_decorate step_skip_marked step_no_target)+

lemma step_shape:
  "same_shape (elems w) (elems (fst (forEach_body adp cont e (w, n))))"
  by (cases e; cases rule: step_cases[of w cont "fst e"])
     (simp_all add: step_decorate step_skip_marked step_no_target same_shape_refl
        setCardThumbnail_shape)

lemma step_marked_mono:
  assumes "marked (elems w) i"
  shows "marked (elems (fst (forEach_body adp cont e (w, n)))) i"
proof (cases e)
  case (Pair cp ip)
  show ?thesis
  proof (cases rule: step_cases[of w cont cp])
    case (decorate c)
    then have "i \<noteq> ident c" using assms by auto
    then show ?thesis
      using assms decorate by (simp add: Pair step_decorate marked_def setCardThumbnail_other)
  next
    case (skip c)
    then show ?thesis using assms by (simp add: Pair step_skip_marked)
  next
    case none
    then show ?thesis using assms by (simp add: Pair step_no_target marked_def)
  qed
qed

lemma step_marks_target:
  assumes "cp \<noteq> ''''" "target_cover (elems w) cont cp = Some c"
  shows "marked (elems (fst (forEach_body (FileSystemAdapter r) cont (cp, ip) (w, n)))) (ident c)"
proof (cases "marked (elems w) (ident c)")
  case True
  then show ?thesis using assms by (simp add: step_skip_marked)
next
  case False
  then show ?thesis
    using assms by (simp add: step_decorate marked_def setCardThumbnail_attr truthy_attr_def)
qed

lemma step_no_adapter:
  "forEach_body OtherAdapter cont e (w, n) =
     (w\<lparr>console := console w @ no_adapter_report (elems w) cont e\<rparr>,
      n + (if wants (elems w) cont (fst e) then 1 else 0))"
  by (cases e; cases rule: step_cases[of w cont "fst e"])
     (simp_all add: step_decorate step_skip_marked step_no_target no_adapter_report_def wants_def
        setCardThumbnail_no_adapter log_def not_found_report_def target_cover_def split: option.splits)

lemma fold_no_adapter:
  "fold (forEach_body OtherAdapter cont) data (w, n) =
     (w\<lparr>console := console w @ concat (map (no_adapter_report (elems w) cont) data)\<rparr>,
      n + length (filter (\<lambda>e. wants (elems w) cont (fst e)) data))"
proof (induction data arbitrary: w n)
  case Nil
  show ?case by simp
next
  case (Cons e data)
  show ?case by (simp add: step_no_adapter Cons.IH)
qed

lemma fold_settled:
  "settled (elems w) cont data \<Longrightarrow>
   fold (forEach_body adp cont) data (w, n) =
     (w\<lparr>console := console w @ concat (map (not_found_report (elems w) cont) data)\<rparr>, n)"
proof (induction data arbitrary: w)
  case Nil
  show ?case by simp
next
  case (Cons e data)
  obtain cp ip where e: "e = (cp, ip)" by (cases e)
  have nw: "\<not> wants (elems w) cont cp" and rest: "settled (elems w) cont data"
    using Cons.prems by (simp_all add: settled_def e)
  have step: "forEach_body adp cont e (w, n) =
      (w\<lparr>console := console w @ not_found_report (elems w) cont e\<rparr>, n)"
  proof (cases rule: step_cases[of w cont cp])
    case (decorate c)
    then show ?thesis using nw by (simp add: wants_def)
  next
    case (skip c)
    then show ?thesis
      by (simp add: e step_skip_marked not_found_report_def target_cover_def split: option.splits)
  next
    case none
    then show ?thesis by (simp add: e step_no_target)
  qed
  show ?case
    using Cons.IH[of "w\<lparr>console := console w @ not_found_report (elems w) cont e\<rparr>"] rest
    by (simp add: step)
qed

lemma fold_shape:
  "same_shape (elems w) (elems (fst (fold (forEach_body adp cont) data (w, n))))"
proof (induction data arbitrary: w n)
  case Nil
  show ?case by (simp add: same_shape_refl)
next
  case (Cons e data)
  obtain w1 n1 where s: "forEach_body adp cont e (w, n) = (w1, n1)" by fastforce
  have "same_shape (elems w) (elems w1)" using step_shape[of w adp cont e n] by (simp add: s)
  then show ?case using Cons.IH[of w1 n1] by (auto simp: s intro: same_shape_trans)
qed

lemma fold_document:
  "document (fst (fold (forEach_body adp cont) data (w, n))) = document w"
proof (induction data arbitrary: w n)
  case Nil
  show ?case by simp
next
  case (Cons e data)
  obtain w1 n1 where s: "forEach_body adp cont e (w, n) = (w1, n1)" by fastforce
  have "document w1 = document w" using step_document(1)[of adp cont e w n] by (simp add: s)
  then show ?case using Cons.IH[of w1 n1] by (simp add: s)
qed

lemma fold_marked_mono:
  "marked (elems w) i \<Longrightarrow> marked (elems (fst (fold (forEach_body adp cont) data (w, n)))) i"
proof (induction data arbitrary: w n)
  case Nil
  then show ?case by simp
next
  case (Cons e data)
  obtain w1 n1 where s: "forEach_body adp cont e (w, n) = (w1, n1)" by fastforce
  have "marked (elems w1) i" using step_marked_mono[OF Cons.prems, of adp cont e n] by (simp add: s)
  then show ?case using Cons.IH[of w1 n1] by (simp add: s)
qed

lemma fold_settles:
  assumes "\<forall>e \<in> set data. fst e \<noteq> ''''"
  shows "settled (elems (fst (fold (forEach_body (FileSystemAdapter r) cont) data (w, n)))) cont data"
  using assms
proof (induction data arbitrary: w n)
  case Nil
  show ?case by (simp add: settled_def)
next
  case (Cons e data)
  obtain cp ip where e: "e = (cp, ip)" by (cases e)
  obtain w1 n1 where s: "forEach_body (FileSystemAdapter r) cont e (w, n) = (w1, n1)" by fastforce
  let ?w2 = "fst (fold (forEach_body (FileSystemAdapter r) cont) data (w1, n1))"
  have sh1: "same_shape (elems w) (elems w1)"
    using step_shape[of w "FileSystemAdapter r" cont e n] by (simp add: s)
  have sh2: "same_shape (elems w1) (elems ?w2)" by (rule fold_shape)
  have sh: "same_shape (elems w) (elems ?w2)" using sh1 sh2 by (rule same_shape_trans)
  have tail: "settled (elems ?w2) cont data" using Cons.IH[of w1 n1] Cons.prems by simp
  have head: "\<not> wants (elems ?w2) cont cp"
  proof (cases "target_cover (elems w) cont cp")
    case None
    then show ?thesis by (simp add: wants_def target_cover_shape[OF sh])
  next
    case (Some c)
    have "cp \<noteq> ''''" using Cons.prems by (simp add: e)
    then have "marked (elems w1) (ident c)"
      using step_marks_target[OF _ Some, of r ip n] by (simp add: s[unfolded e])
    then have "marked (elems ?w2) (ident c)" by (rule fold_marked_mono)
    then show ?thesis by (simp add: wants_def target_cover_shape[OF sh] Some)
  qed
  show ?case using head tail by (simp add: settled_def e s[unfolded e])
qed

lemma start_query:
  "document_querySelector (log m w) sel = document_querySelector w sel"
  by (simp add: document_querySelector_def document_querySelectorAll_def)

lemma addCardThumbnails_no_container:
  "document_querySelector w (ClassSel ''bases-cards-container'') = None \<Longrightarrow>
   addCardThumbnails adp data w =
     w\<lparr>console := console w @ [StartUpdate (length data), NoContainer]\<rparr>"
  by (simp add: addCardThumbnails_def Let_def start_query)

lemma addCardThumbnails_container:
  "document_querySelector w (ClassSel ''bases-cards-container'') = Some cont \<Longrightarrow>
   addCardThumbnails adp data w =
     log (UpdateDone (snd (fold (forEach_body adp cont) data (log (StartUpdate (length data)) w, 0))))
         (fst (fold (forEach_body adp cont) data (log (StartUpdate (length data)) w, 0)))"
  by (simp add: addCardThumbnails_def Let_def start_query split: prod.splits)

lemma addCardThumbnails_document:
  "document (addCardThumbnails adp data w) = document w"
  by (cases "document_querySelector w (ClassSel ''bases-cards-container'')")
     (simp_all add: addCardThumbnails_no_container addCardThumbnails_container fold_document)

lemma addCardThumbnails_shape:
  "same_shape (elems w) (elems (addCardThumbnails adp data w))"
proof (cases "document_querySelector w (ClassSel ''bases-cards-container'')")
  case None
  then show ?thesis by (simp add: addCardThumbnails_no_container same_shape_refl)
next
  case (Some cont)
  show ?thesis
    using fold_shape[of "log (StartUpdate (length data)) w" adp cont data 0]
    by (simp add: addCardThumbnails_container[OF Some])
qed

lemma not_found_report_shape:
  "same_shape st st' \<Longrightarrow> not_found_report st' cont e = not_found_report st cont e"
  by (simp add: not_found_report_def findCard_shape)

lemma addCardThumbnails_settled:
  assumes "settled (elems w) cont data"
    and "document_querySelector w (ClassSel ''bases-cards-container'') = Some cont"
  shows "addCardThumbnails adp data w =
     w\<lparr>console := console w @ StartUpdate (length data) #
          concat (map (not_found_report (elems w) cont) data) @ [UpdateDone 0]\<rparr>"
proof -
  have "settled (elems (log (StartUpdate (length data)) w)) cont data" using assms(1) by simp
  from fold_settled[OF this, of adp 0] show ?thesis
    by (simp add: addCardThumbnails_container[OF assms(2)] log_def)
qed

lemma addCardThumbnails_settles:
  assumes "\<forall>e \<in> set data. fst e \<noteq> ''''"
    and "document_querySelector w (ClassSel ''bases-cards-container'') = Some cont"
  shows "settled (elems (addCardThumbnails (FileSystemAdapter r) data w)) cont data"
  using fold_settles[OF assms(1), of r cont "log (StartUpdate (length data)) w" 0]
  by (simp add: addCardThumbnails_container[OF assms(2)])

lemma addCardThumbnails_no_adapter_elems:
  "elems (addCardThumbnails OtherAdapter data w) = elems w"
  by (cases "document_querySelector w (ClassSel ''bases-cards-container'')")
     (simp_all add: addCardThumbnails_no_container addCardThumbnails_container fold_no_adapter)

text \<open>
  C9. With an adapter that is not a \<open>FileSystemAdapter\<close>, \<open>setCardThumbnail\<close> only
  reports the error and leaves the cover as it was. A whole pass then changes no element,
  and its console shows that every entry of the map was still processed in turn: an
  error report for each entry that found an undecorated cover, the not-found message
  for each entry without a card, and the closing message.
\<close>

theorem adapter_unavailable_skips_card:
  "setCardThumbnail OtherAdapter imagePath coverElement canvasPath w =
     w\<lparr>console := console w @ [NoAdapterError]\<rparr> \<and>
   elems (addCardThumbnails OtherAdapter data w) = elems w \<and>
   document (addCardThumbnails OtherAdapter data w) = document w \<and>
   (document_querySelector w (ClassSel ''bases-cards-container'') = Some cont \<longrightarrow>
      console (addCardThumbnails OtherAdapter data w) =
        console w @ StartUpdate (length data) #
          concat (map (no_adapter_report (elems w) cont) data) @
          [UpdateDone (length (filter (\<lambda>e. wants (elems w) cont (fst e)) data))])"
proof -
  let ?w = "log (StartUpdate (length data)) w"
  have q: "document_querySelector ?w sel = document_querySelector w sel" for sel
    by (simp add: document_querySelector_def document_querySelectorAll_def)
  show ?thesis
    by (simp add: setCardThumbnail_no_adapter log_def addCardThumbnails_def Let_def
        q[unfolded log_def] fold_no_adapter split: option.splits)
qed

theorem adapter_unavailable_skips_card_witness:
  "document_querySelector sample_world (ClassSel ''bases-cards-container'') =
     Some sample_container \<and>
   elems (addCardThumbnails OtherAdapter three_data sample_world) = elems sample_world \<and>
   console (addCardThumbnails OtherAdapter three_data sample_world) =
     [StartUpdate 3,
      NoAdapterError, ThumbnailSet ''Alpha'' ''Projects/cover.png'',
      CardNotFound ''Gamma'',
      NoAdapterError, ThumbnailSet ''Beta'' ''b.png'',
      UpdateDone 2]"
proof -
  have c: "document_querySelector sample_world (ClassSel ''bases-cards-container'') =
             Some sample_container"
    by code_simp
  have r: "concat (map (no_adapter_report (elems sample_world) sample_container) three_data) =
             [NoAdapterError, ThumbnailSet ''Alpha'' ''Projects/cover.png'',
              CardNotFound ''Gamma'',
              NoAdapterError, ThumbnailSet ''Beta'' ''b.png'']"
    by code_simp
  have n: "length (filter (\<lambda>e. wants (elems sample_world) sample_container (fst e)) three_data) = 2"
    by code_simp
  have l: "length three_data = 3" "console sample_world = []"
    by (simp_all add: three_data_def sample_world_def)
  show ?thesis
    using adapter_unavailable_skips_card
            [of "''b.png''" "Element 3 []" "''Beta.canvas''" sample_world three_data sample_container]
    by (simp add: c r n l)
qed

text \<open>
  C3. The count is incremented after every call of \<open>setCardThumbnail\<close>, whether or not
  the call decorated the cover. Without a \<open>FileSystemAdapter\<close> the pass over the sample
  view reports one updated card although no element has changed.
\<close>

theorem count_includes_undecorated_card:
  "console (addCardThumbnails OtherAdapter alpha_data sample_world) =
     [StartUpdate 1, NoAdapterError, ThumbnailSet ''Alpha'' ''Projects/cover.png'',
      UpdateDone 1] \<and>
   elems (addCardThumbnails OtherAdapter alpha_data sample_world) = elems sample_world"
proof
  show "console (addCardThumbnails OtherAdapter alpha_data sample_world) =
     [StartUpdate 1, NoAdapterError, ThumbnailSet ''Alpha'' ''Projects/cover.png'',
      UpdateDone 1]"
    by code_simp
  show "elems (addCardThumbnails OtherAdapter alpha_data sample_world) = elems sample_world"
    by (rule addCardThumbnails_no_adapter_elems)
qed

lemma second_pass_settled:
  assumes "\<forall>e \<in> set data. fst e \<noteq> ''''"
    and "document_querySelector w (ClassSel ''bases-cards-container'') = Some cont"
  shows "addCardThumbnails (FileSystemAdapter r) data
           (addCardThumbnails (FileSystemAdapter r) data w) =
         (addCardThumbnails (FileSystemAdapter r) data w)
           \<lparr>console := console (addCardThumbnails (FileSystemAdapter r) data w) @
              StartUpdate (length data) #
              concat (map (not_found_report (elems w) cont) data) @ [UpdateDone 0]\<rparr>"
proof -
  let ?w1 = "addCardThumbnails (FileSystemAdapter r) data w"
  have sh: "same_shape (elems w) (elems ?w1)" by (rule addCardThumbnails_shape)
  have doc: "document ?w1 = document w" by (rule addCardThumbnails_document)
  have "document_querySelector ?w1 (ClassSel ''bases-cards-container'') =
        document_querySelector w (ClassSel ''bases-cards-container'')"
    using doc sh by (rule container_shape)
  then have q1: "document_querySelector ?w1 (ClassSel ''bases-cards-container'') = Some cont"
    by (simp add: assms(2))
  have s1: "settled (elems ?w1) cont data" using assms by (rule addCardThumbnails_settles)
  show ?thesis
    using addCardThumbnails_settled[OF s1 q1, of "FileSystemAdapter r"]
    by (simp add: not_found_report_shape[OF sh] cong: map_cong)
qed

lemma second_pass_elems:
  assumes "\<forall>e \<in> set data. fst e \<noteq> ''''"
  shows "elems (addCardThumbnails adp data (addCardThumbnails adp data w)) =
         elems (addCardThumbnails adp data w)"
proof (cases adp)
  case (FileSystemAdapter r)
  let ?w1 = "addCardThumbnails (FileSystemAdapter r) data w"
  show ?thesis
  proof (cases "document_querySelector w (ClassSel ''bases-cards-container'')")
    case None
    have "document_querySelector ?w1 (ClassSel ''bases-cards-container'') =
          document_querySelector w (ClassSel ''bases-cards-container'')"
      using addCardThumbnails_document addCardThumbnails_shape by (rule container_shape)
    then show ?thesis
      using None by (simp add: FileSystemAdapter addCardThumbnails_no_container)
  next
    case (Some cont)
    show ?thesis
      by (simp add: FileSystemAdapter second_pass_settled[OF assms Some])
  qed
next
  case OtherAdapter
  then show ?thesis by (simp add: addCardThumbnails_no_adapter_elems)
qed

section \<open>An entry with the empty key\<close>

lemma querySelector_cover:
  "querySelector st (ClassSel ''bases-cards-cover'') c = cover_element st c"
  by (simp add: querySelector_def querySelectorAll_def cover_element_def first_of_filter
        cong: filter_cong)

lemma shows_empty_key: "shows_key st '''' c \<longleftrightarrow> name_element st c \<noteq> None"
  by (simp add: shows_key_def display_text_def split: option.splits)

lemma findCard_empty_key:
  "findCardByFileName st cont '''' =
     find (\<lambda>c. name_element st c \<noteq> None) (card_elements st cont)"
  by (simp add: findCardByFileName_def findCard_loop_find querySelectorAll_cards
        shows_empty_key[abs_def])

text \<open>
  C10, as stated, fails in its last clause: the entry with the empty key is skipped
  without a message when the cover of the first named card is already marked. In the
  pass below the first entry decorates the card \<open>Alpha Draft\<close>, the first card of the
  gallery with a file-name element, and the entry of \<open>Projects/.canvas\<close> then leaves
  no trace.
\<close>

theorem empty_key_entry_is_skipped:
  "getFileNameFromPath ''Projects/.canvas'' = '''' \<and>
   find (\<lambda>c. name_element gallery_elems c \<noteq> None)
        (card_elements gallery_elems gallery_container) = Some card_draft \<and>
   console (addCardThumbnails sample_adapter shadow_data gallery_world) =
     [StartUpdate 2, ThumbnailApplied ''app://local/a.png'',
      ThumbnailSet ''Alpha Draft'' ''a.png'', UpdateDone 1] \<and>
   getAttribute (addCardThumbnails sample_adapter shadow_data gallery_world)
     (Element 24 []) ''data-canvas-thumbnail'' = Some ''Alpha Draft.canvas''"
  by code_simp

text \<open>
  C10, amended. When the key derived from a canvas path is empty, as for a path whose
  final segment is exactly \<open>.canvas\<close>, the lookup returns the first card of the
  container that has a file-name element at all, whatever its text. The entry is then
  handled like any other: with the file-system adapter it decorates the cover of that
  card when the cover carries no marker, it is skipped without a message when the
  cover is marked or missing, and it is reported as not found only when no card has a
  file-name element.
\<close>

theorem empty_key_first_named_card:
  assumes "getFileNameFromPath canvasPath = ''''"
  shows "findCardByFileName (elems w) cont (getFileNameFromPath canvasPath) =
           find (\<lambda>c. name_element (elems w) c \<noteq> None) (card_elements (elems w) cont) \<and>
         (find (\<lambda>c. name_element (elems w) c \<noteq> None) (card_elements (elems w) cont)
            = Some cardEl \<and>
          cover_element (elems w) cardEl = Some cov \<and> \<not> marked (elems w) (ident cov) \<longrightarrow>
            forEach_body (FileSystemAdapter r) cont (canvasPath, ip) (w, n) =
              (log (ThumbnailSet '''' ip)
                 (setCardThumbnail (FileSystemAdapter r) ip cov canvasPath w), n + 1) \<and>
            getAttribute (fst (forEach_body (FileSystemAdapter r) cont (canvasPath, ip) (w, n)))
              cov ''data-canvas-thumbnail'' = Some canvasPath \<and>
            getAttribute (fst (forEach_body (FileSystemAdapter r) cont (canvasPath, ip) (w, n)))
              cov ''data-image-path'' = Some ip) \<and>
         (find (\<lambda>c. name_element (elems w) c \<noteq> None) (card_elements (elems w) cont)
            = Some cardEl \<and>
          cover_element (elems w) cardEl = Some cov \<and> marked (elems w) (ident cov) \<longrightarrow>
            forEach_body adp cont (canvasPath, ip) (w, n) = (w, n)) \<and>
         (find (\<lambda>c. name_element (elems w) c \<noteq> None) (card_elements (elems w) cont)
            = Some cardEl \<and>
          cover_element (elems w) cardEl = None \<longrightarrow>
            forEach_body adp cont (canvasPath, ip) (w, n) = (w, n)) \<and>
         (find (\<lambda>c. name_element (elems w) c \<noteq> None) (card_elements (elems w) cont) = None \<longrightarrow>
            forEach_body adp cont (canvasPath, ip) (w, n) = (log (CardNotFound '''') w, n))"
proof (intro conjI impI)
  show "findCardByFileName (elems w) cont (getFileNameFromPath canvasPath) =
          find (\<lambda>c. name_element (elems w) c \<noteq> None) (card_elements (elems w) cont)"
    by (simp add: assms findCard_empty_key)
next
  assume a: "find (\<lambda>c. name_element (elems w) c \<noteq> None) (card_elements (elems w) cont)
               = Some cardEl \<and>
             cover_element (elems w) cardEl = Some cov \<and> \<not> marked (elems w) (ident cov)"
  then have t: "target_cover (elems w) cont canvasPath = Some cov"
    by (simp add: target_cover_def assms findCard_empty_key querySelector_cover)
  have nm: "\<not> marked (elems w) (ident cov)" using a by simp
  show step: "forEach_body (FileSystemAdapter r) cont (canvasPath, ip) (w, n) =
          (log (ThumbnailSet '''' ip)
             (setCardThumbnail (FileSystemAdapter r) ip cov canvasPath w), n + 1)"
    using step_decorate[OF t nm, of "FileSystemAdapter r" ip n] by (simp add: assms)
  show "getAttribute (fst (forEach_body (FileSystemAdapter r) cont (canvasPath, ip) (w, n)))
          cov ''data-canvas-thumbnail'' = Some canvasPath"
    by (simp add: step getAttribute_def setCardThumbnail_attr)
  show "getAttribute (fst (forEach_body (FileSystemAdapter r) cont (canvasPath, ip) (w, n)))
          cov ''data-image-path'' = Some ip"
    by (simp add: step getAttribute_def setCardThumbnail_attr)
next
  assume a: "find (\<lambda>c. name_element (elems w) c \<noteq> None) (card_elements (elems w) cont)
               = Some cardEl \<and>
             cover_element (elems w) cardEl = Some cov \<and> marked (elems w) (ident cov)"
  then have t: "target_cover (elems w) cont canvasPath = Some cov"
    by (simp add: target_cover_def assms findCard_empty_key querySelector_cover)
  show "forEach_body adp cont (canvasPath, ip) (w, n) = (w, n)"
    using a by (intro step_skip_marked[OF t]) simp
next
  assume a: "find (\<lambda>c. name_element (elems w) c \<noteq> None) (card_elements (elems w) cont)
               = Some cardEl \<and>
             cover_element (elems w) cardEl = None"
  then have t: "target_cover (elems w) cont canvasPath = None"
    by (simp add: target_cover_def assms findCard_empty_key querySelector_cover)
  have "not_found_report (elems w) cont (canvasPath, ip) = []"
    using a by (simp add: not_found_report_def assms findCard_empty_key)
  then show "forEach_body adp cont (canvasPath, ip) (w, n) = (w, n)"
    by (simp add: step_no_target[OF t])
next
  assume a: "find (\<lambda>c. name_element (elems w) c \<noteq> None) (card_elements (elems w) cont) = None"
  then have t: "target_cover (elems w) cont canvasPath = None"
    by (simp add: target_cover_def assms findCard_empty_key)
  have "not_found_report (elems w) cont (canvasPath, ip) = [CardNotFound '''']"
    using a by (simp add: not_found_report_def assms findCard_empty_key)
  then show "forEach_body adp cont (canvasPath, ip) (w, n) = (log (CardNotFound '''') w, n)"
    by (simp add: step_no_target[OF t] log_def)
qed

theorem empty_key_first_named_card_witness:
  "getFileNameFromPath ''Projects/.canvas'' = '''' \<and>
   findCardByFileName gallery_elems gallery_container
     (getFileNameFromPath ''Projects/.canvas'') = Some card_draft \<and>
   getAttribute
     (fst (forEach_body sample_adapter gallery_container (''Projects/.canvas'', ''x.png'')
             (gallery_world, 0)))
     (Element 24 []) ''data-canvas-thumbnail'' = Some ''Projects/.canvas'' \<and>
   snd (forEach_body sample_adapter gallery_container (''Projects/.canvas'', ''x.png'')
          (gallery_world, 0)) = 1 \<and>
   forEach_body sample_adapter gallery_container (''Projects/.canvas'', ''x.png'')
     (addCardThumbnails sample_adapter draft_data gallery_world, 0) =
     (addCardThumbnails sample_adapter draft_data gallery_world, 0)"
proof -
  let ?w1 = "addCardThumbnails sample_adapter draft_data gallery_world"
  have k: "getFileNameFromPath ''Projects/.canvas'' = ''''"
    by (simp add: getFileNameFromPath_def pop_def)
  have e: "elems gallery_world = gallery_elems" by (simp add: gallery_world_def)
  have f0: "find (\<lambda>c. name_element (elems gallery_world) c \<noteq> None)
              (card_elements (elems gallery_world) gallery_container) = Some card_draft"
    "cover_element (elems gallery_world) card_draft = Some (Element 24 [])"
    "\<not> marked (elems gallery_world) (ident (Element 24 []))"
    by code_simp+
  have f1: "find (\<lambda>c. name_element (elems ?w1) c \<noteq> None)
              (card_elements (elems ?w1) gallery_container) = Some card_draft"
    "cover_element (elems ?w1) card_draft = Some (Element 24 [])"
    "marked (elems ?w1) (ident (Element 24 []))"
    by code_simp+
  note fresh = empty_key_first_named_card
      [OF k, where w = gallery_world and cont = gallery_container and cardEl = card_draft
         and cov = "Element 24 []" and ip = "''x.png''" and n = 0
         and r = "\<lambda>p. ''app://local/'' @ p", folded sample_adapter_def]
  note again = empty_key_first_named_card
      [OF k, where w = ?w1 and cont = gallery_container and cardEl = card_draft
         and cov = "Element 24 []" and ip = "''x.png''" and n = 0 and adp = sample_adapter]
  have look: "findCardByFileName gallery_elems gallery_container
     (getFileNameFromPath ''Projects/.canvas'') = Some card_draft"
    using fresh[THEN conjunct1] f0(1) by (simp add: e)
  have dec: "forEach_body sample_adapter gallery_container (''Projects/.canvas'', ''x.png'')
               (gallery_world, 0) =
             (log (ThumbnailSet '''' ''x.png'')
                (setCardThumbnail sample_adapter ''x.png'' (Element 24 []) ''Projects/.canvas''
                   gallery_world), 0 + 1) \<and>
             getAttribute
               (fst (forEach_body sample_adapter gallery_container
                       (''Projects/.canvas'', ''x.png'') (gallery_world, 0)))
               (Element 24 []) ''data-canvas-thumbnail'' = Some ''Projects/.canvas'' \<and>
             getAttribute
               (fst (forEach_body sample_adapter gallery_container
                       (''Projects/.canvas'', ''x.png'') (gallery_world, 0)))
               (Element 24 []) ''data-image-path'' = Some ''x.png''"
    using fresh[THEN conjunct2, THEN conjunct1] f0 by blast
  have skip: "forEach_body sample_adapter gallery_container (''Projects/.canvas'', ''x.png'')
                (?w1, 0) = (?w1, 0)"
    using again[THEN conjunct2, THEN conjunct2, THEN conjunct1] f1 by blast
  have cnt: "snd (forEach_body sample_adapter gallery_container (''Projects/.canvas'', ''x.png'')
          (gallery_world, 0)) = 1"
    by (simp add: dec[THEN conjunct1])
  show ?thesis
    using k look dec[THEN conjunct2, THEN conjunct1] cnt skip by (intro conjI)
qed

section \<open>Properties of the scan\<close>

lemma scan_log_fields [simp]:
  "canvasWithThumbnail (scan_log m s) = canvasWithThumbnail s"
  "scan_console (scan_log m s) = scan_console s @ [m]"
  by (simp_all add: scan_log_def)

lemma image_ref_JNull [simp]: "image_ref v JNull = None"
  by (simp add: image_ref_def)

lemma image_not_folder: "image_ref v node = Some p \<Longrightarrow> \<not> folder_ref v node"
  by (auto simp: image_ref_def folder_ref_def
        split: json.splits option.splits TAbstractFile.splits if_splits)

lemma node_step:
  assumes "resolves_by_path v" "\<not> folder_ref v node" "node \<noteq> JNull"
  shows "nodes_loop v cf (node # nodes) s =
           (case image_ref v node of
              None \<Rightarrow> nodes_loop v cf nodes s
            | Some p \<Rightarrow> Inr (add_entry (path cf) p s))"
proof (cases node)
  case (JObject kvs)
  show ?thesis
  proof (cases "map_of kvs ''type'' = Some (JString ''file'')")
    case False
    then show ?thesis by (simp add: JObject image_ref_def)
  next
    case ty: True
    show ?thesis
    proof (cases "map_of kvs ''file''")
      case None
      then show ?thesis by (simp add: JObject image_ref_def ty)
    next
      case (Some fl)
      show ?thesis
      proof (cases "getAbstractFileByPath v fl")
        case None
        then show ?thesis
          by (cases fl) (auto simp: JObject image_ref_def ty Some)
      next
        case res: (Some t)
        have f: "fl = JString (abstract_path t)" and ne: "abstract_path t \<noteq> ''''"
          using assms(1) res by (auto simp: resolves_by_path_def)
        obtain nf where t: "t = File nf"
          using assms(2) res by (cases t) (auto simp: folder_ref_def JObject ty Some f)
        show ?thesis
          using res ne by (simp add: JObject image_ref_def ty Some f t add_entry_def)
      qed
    qed
  qed
qed (use assms(3) in \<open>simp_all add: image_ref_def\<close>)

lemma nodes_loop_first:
  assumes "resolves_by_path v"
  shows "folders_shadowed v nodes \<Longrightarrow>
         nodes_loop v cf nodes s =
           (case first_decisive v nodes of
              None \<Rightarrow> Inr s
            | Some n \<Rightarrow>
                (case image_ref v n of
                   None \<Rightarrow> Inl TypeError
                 | Some p \<Rightarrow> Inr (add_entry (path cf) p s)))"
proof (induction nodes)
  case Nil
  show ?case by (simp add: first_decisive_def)
next
  case (Cons node nodes)
  show ?case
  proof (cases "node = JNull")
    case True
    then show ?thesis by (simp add: first_decisive_def)
  next
    case False
    show ?thesis
    proof (cases "image_ref v node")
      case (Some p)
      then have "\<not> folder_ref v node" by (rule image_not_folder)
      then show ?thesis
        using Some False
        by (simp add: node_step[OF assms _ False] first_decisive_def del: nodes_loop.simps)
    next
      case None
      then have nf: "\<not> folder_ref v node" and rest: "folders_shadowed v nodes"
        using Cons.prems False by simp_all
      show ?thesis
        using Cons.IH[OF rest] None False
        by (simp add: node_step[OF assms nf False] first_decisive_def del: nodes_loop.simps)
    qed
  qed
qed

lemma add_entry_map [simp]:
  "canvasWithThumbnail (add_entry k p s) = AList.update k p (canvasWithThumbnail s)"
  by (simp add: add_entry_def)

lemma scan_file_entry:
  assumes "resolves_by_path v" "no_early_folder_ref v f"
  shows "canvasWithThumbnail (scan_file v f s) =
           (case file_entry v f of
              None \<Rightarrow> canvasWithThumbnail s
            | Some p \<Rightarrow> AList.update (path f) p (canvasWithThumbnail s))"
proof (cases "read v f")
  case (Inl e)
  then show ?thesis by (simp add: scan_file_def try_file_def file_entry_def doc_nodes_def)
next
  case (Inr content)
  show ?thesis
  proof (cases "JSON_parse v content")
    case (Inl e)
    then show ?thesis
      by (simp add: scan_file_def try_file_def file_entry_def doc_nodes_def Inr)
  next
    case parsed: (Inr canvasData)
    show ?thesis
    proof (cases canvasData)
      case (JObject kvs)
      show ?thesis
      proof (cases "\<exists>nodes. map_of kvs ''nodes'' = Some (JArray nodes)")
        case True
        then obtain nodes where n: "map_of kvs ''nodes'' = Some (JArray nodes)" by blast
        have "doc_nodes v f = Some nodes"
          by (simp add: doc_nodes_def Inr parsed JObject n)
        then have sh: "folders_shadowed v nodes"
          using assms(2) by (simp add: no_early_folder_ref_def)
        show ?thesis
          by (simp add: scan_file_def try_file_def file_entry_def doc_nodes_def Inr parsed
                JObject n nodes_loop_first[OF assms(1) sh] split: option.splits)
      next
        case False
        then show ?thesis
          by (auto simp: scan_file_def try_file_def file_entry_def doc_nodes_def Inr parsed
                JObject split: option.splits json.splits)
      qed
    qed (simp_all add: scan_file_def try_file_def file_entry_def doc_nodes_def Inr parsed)
  qed
qed

text \<open>Whatever a canvas file holds, scanning it leaves the entries of all other keys
  as they were.\<close>

lemma nodes_loop_other_key:
  "nodes_loop v cf nodes s = Inr s' \<Longrightarrow> k \<noteq> path cf \<Longrightarrow>
   map_of (canvasWithThumbnail s') k = map_of (canvasWithThumbnail s) k"
  by (induction nodes)
     (auto simp: update_conv' split: sum.splits option.splits TAbstractFile.splits if_splits)

lemma scan_file_other_key:
  assumes "k \<noteq> path f"
  shows "map_of (canvasWithThumbnail (scan_file v f s)) k = map_of (canvasWithThumbnail s) k"
proof (cases "try_file v f s")
  case (Inl e)
  then show ?thesis by (simp add: scan_file_def)
next
  case (Inr s')
  then have "s' = s \<or> (\<exists>nodes. nodes_loop v f nodes s = Inr s')"
    by (auto simp: try_file_def split: sum.splits option.splits json.splits)
  then show ?thesis
    using assms Inr by (auto simp: scan_file_def dest: nodes_loop_other_key)
qed

lemma fold_other_keys:
  "k \<notin> path ` set fs \<Longrightarrow>
   map_of (canvasWithThumbnail (fold (scan_file v) fs s)) k = map_of (canvasWithThumbnail s) k"
proof (induction fs arbitrary: s)
  case Nil
  show ?case by simp
next
  case (Cons g fs)
  then have "k \<noteq> path g" "k \<notin> path ` set fs" by auto
  then show ?case using Cons.IH[of "scan_file v g s"] by (simp add: scan_file_other_key)
qed

lemma fold_own_key:
  assumes "resolves_by_path v" "no_early_folder_ref v f"
  shows "distinct (map path fs) \<Longrightarrow> f \<in> set fs \<Longrightarrow>
         map_of (canvasWithThumbnail (fold (scan_file v) fs s)) (path f) =
           (case file_entry v f of
              None \<Rightarrow> map_of (canvasWithThumbnail s) (path f)
            | Some p \<Rightarrow> Some p)"
proof (induction fs arbitrary: s)
  case Nil
  then show ?case by simp
next
  case (Cons g fs)
  have d: "distinct (map path fs)" and ng: "path g \<notin> path ` set fs"
    using Cons.prems(1) by simp_all
  show ?case
  proof (cases "g = f")
    case True
    have "map_of (canvasWithThumbnail (fold (scan_file v) fs (scan_file v f s))) (path f) =
          map_of (canvasWithThumbnail (scan_file v f s)) (path f)"
      using ng True by (intro fold_other_keys) simp
    then show ?thesis
      by (simp add: True scan_file_entry[OF assms] update_conv' split: option.splits)
  next
    case False
    then have mem: "f \<in> set fs" using Cons.prems(2) by simp
    then have "path f \<noteq> path g" using ng by (metis imageI)
    then have "map_of (canvasWithThumbnail (scan_file v g s)) (path f) =
               map_of (canvasWithThumbnail s) (path f)"
      by (rule scan_file_other_key)
    then show ?thesis
      using Cons.IH[OF d mem, of "scan_file v g s"] by (simp split: option.splits)
  qed
qed

lemma scanCanvasFiles_map:
  "canvasWithThumbnail (scanCanvasFiles v s) =
     canvasWithThumbnail
       (fold (scan_file v) (filter (\<lambda>f. extension f = ''canvas'') (getFiles v))
          (scan_log ScanStart s\<lparr>canvasWithThumbnail := []\<rparr>))"
  by (simp add: scanCanvasFiles_def Let_def)

text \<open>Every key of the scanned map is the path of a listed canvas file, without any
  assumption on the vault.\<close>

lemma scan_keys_are_canvas_paths:
  assumes "map_of (canvasWithThumbnail (scanCanvasFiles v s)) k = Some p"
  shows "\<exists>g \<in> set (getFiles v). extension g = ''canvas'' \<and> path g = k"
proof (rule ccontr)
  assume "\<not> (\<exists>g \<in> set (getFiles v). extension g = ''canvas'' \<and> path g = k)"
  then have "k \<notin> path ` set (filter (\<lambda>f. extension f = ''canvas'') (getFiles v))" by auto
  from fold_other_keys[OF this] have "map_of (canvasWithThumbnail (scanCanvasFiles v s)) k = None"
    by (simp add: scanCanvasFiles_map)
  with assms show False by simp
qed

lemma scanCanvasFiles_own_key:
  assumes "resolves_by_path v" "distinct_paths v" "no_early_folder_ref v f"
    and "f \<in> set (getFiles v)" "extension f = ''canvas''"
  shows "map_of (canvasWithThumbnail (scanCanvasFiles v s)) (path f) = file_entry v f"
proof -
  have d: "distinct (map path (filter (\<lambda>f. extension f = ''canvas'') (getFiles v)))"
    using assms(2) by (simp add: distinct_paths_def distinct_map_filter)
  have m: "f \<in> set (filter (\<lambda>f. extension f = ''canvas'') (getFiles v))"
    using assms(4,5) by simp
  from fold_own_key[OF assms(1,3) d m] show ?thesis
    by (simp add: scanCanvasFiles_map split: option.splits)
qed

lemma file_entry_iff:
  "file_entry v f = Some p \<longleftrightarrow>
     (\<exists>nodes i. doc_nodes v f = Some nodes \<and> i < length nodes \<and>
        image_ref v (nodes ! i) = Some p \<and>
        (\<forall>j<i. image_ref v (nodes ! j) = None \<and> nodes ! j \<noteq> JNull))"
proof (cases "doc_nodes v f")
  case None
  then show ?thesis by (simp add: file_entry_def)
next
  case (Some nodes)
  show ?thesis
  proof
    assume "file_entry v f = Some p"
    then obtain n where fd: "first_decisive v nodes = Some n" and ir: "image_ref v n = Some p"
      by (auto simp: file_entry_def Some split: option.splits)
    from fd obtain i where "i < length nodes" "nodes ! i = n"
      "\<forall>j<i. \<not> (nodes ! j = JNull \<or> image_ref v (nodes ! j) \<noteq> None)"
      by (auto simp: first_decisive_def find_Some_iff)
    then show "\<exists>nodes i. doc_nodes v f = Some nodes \<and> i < length nodes \<and>
        image_ref v (nodes ! i) = Some p \<and>
        (\<forall>j<i. image_ref v (nodes ! j) = None \<and> nodes ! j \<noteq> JNull)"
      using Some ir by auto
  next
    assume "\<exists>nodes i. doc_nodes v f = Some nodes \<and> i < length nodes \<and>
        image_ref v (nodes ! i) = Some p \<and>
        (\<forall>j<i. image_ref v (nodes ! j) = None \<and> nodes ! j \<noteq> JNull)"
    then obtain i where i: "i < length nodes" "image_ref v (nodes ! i) = Some p"
        "\<forall>j<i. image_ref v (nodes ! j) = None \<and> nodes ! j \<noteq> JNull"
      using Some by auto
    then have "first_decisive v nodes = Some (nodes ! i)"
      unfolding first_decisive_def find_Some_iff by (intro exI[of _ i]) auto
    then show "file_entry v f = Some p" using i by (simp add: file_entry_def Some)
  qed
qed

text \<open>
  C1, amended. For a vault whose lookups return the entry stored under the path given
  and whose listed files have distinct paths: for a listed canvas file in whose node
  list no folder reference comes before the first element that is \<open>null\<close> or an
  image node, the map produced by a scan has an entry for the file's path exactly when
  the file can be read and parses as JSON with a \<open>nodes\<close> array that contains an image
  node with no \<open>null\<close> element before the first one, and the value is the path that
  first image node refers to. Whatever the vault, every key of the map is the path of
  a listed canvas file, and the map does not depend on the map held before the scan.
\<close>

theorem scan_map_first_image:
  assumes "resolves_by_path v" "distinct_paths v"
  shows "(f \<in> set (getFiles v) \<and> extension f = ''canvas'' \<and> no_early_folder_ref v f \<longrightarrow>
            (map_of (canvasWithThumbnail (scanCanvasFiles v s)) (path f) = Some p \<longleftrightarrow>
               (\<exists>nodes i. doc_nodes v f = Some nodes \<and> i < length nodes \<and>
                  image_ref v (nodes ! i) = Some p \<and>
                  (\<forall>j<i. image_ref v (nodes ! j) = None \<and> nodes ! j \<noteq> JNull)))) \<and>
         (map_of (canvasWithThumbnail (scanCanvasFiles v s)) k = Some p \<longrightarrow>
            (\<exists>g \<in> set (getFiles v). extension g = ''canvas'' \<and> path g = k)) \<and>
         canvasWithThumbnail (scanCanvasFiles v s) =
           canvasWithThumbnail (scanCanvasFiles v (s\<lparr>canvasWithThumbnail := []\<rparr>))"
proof (intro conjI impI)
  assume f: "f \<in> set (getFiles v) \<and> extension f = ''canvas'' \<and> no_early_folder_ref v f"
  then have "map_of (canvasWithThumbnail (scanCanvasFiles v s)) (path f) = file_entry v f"
    using assms by (intro scanCanvasFiles_own_key) simp_all
  then show "map_of (canvasWithThumbnail (scanCanvasFiles v s)) (path f) = Some p \<longleftrightarrow>
     (\<exists>nodes i. doc_nodes v f = Some nodes \<and> i < length nodes \<and>
        image_ref v (nodes ! i) = Some p \<and>
        (\<forall>j<i. image_ref v (nodes ! j) = None \<and> nodes ! j \<noteq> JNull))"
    by (simp add: file_entry_iff)
next
  assume "map_of (canvasWithThumbnail (scanCanvasFiles v s)) k = Some p"
  then show "\<exists>g \<in> set (getFiles v). extension g = ''canvas'' \<and> path g = k"
    by (rule scan_keys_are_canvas_paths)
next
  show "canvasWithThumbnail (scanCanvasFiles v s) =
           canvasWithThumbnail (scanCanvasFiles v (s\<lparr>canvasWithThumbnail := []\<rparr>))"
    by (simp add: scanCanvasFiles_def Let_def scan_log_def)
qed

lemmas vault_defs = sample_vault_def broken_file_def alpha_file_def nulls_file_def
  cover_file_def pdf_file_def cover_node_def pdf_node_def stale_state_def
  folder_vault_def plan_file_def folder_node_def

text \<open>
  C1, as stated, fails when a \<open>null\<close> element precedes the image node: reading
  \<open>node.type\<close> throws, the \<open>catch\<close> logs the error, and the document contributes
  no entry although its node list contains an image node.
\<close>

theorem null_node_hides_image:
  "doc_nodes sample_vault nulls_file = Some [JNull, cover_node] \<and>
   image_ref sample_vault cover_node = Some ''Projects/cover.PNG'' \<and>
   map_of (canvasWithThumbnail (scanCanvasFiles sample_vault stale_state)) (path nulls_file) = None"
  by code_simp

theorem scan_map_first_image_witness:
  "folder_ref folder_vault folder_node \<and>
   map_of (canvasWithThumbnail (scanCanvasFiles folder_vault stale_state))
     ''Projects/Plan.canvas'' = Some ''Projects/cover.PNG'' \<and>
   map_of (canvasWithThumbnail (scanCanvasFiles folder_vault stale_state)) ''Old.canvas'' = None \<and>
   canvasWithThumbnail (scanCanvasFiles folder_vault stale_state) =
     canvasWithThumbnail (scanCanvasFiles folder_vault (stale_state\<lparr>canvasWithThumbnail := []\<rparr>))"
proof -
  have ok: "resolves_by_path folder_vault" "distinct_paths folder_vault"
    by (simp_all add: resolves_by_path_def distinct_paths_def vault_defs)
  note plan = scan_map_first_image
    [OF ok, where f = plan_file and p = "''Projects/cover.PNG''" and s = stale_state
       and k = "''Old.canvas''"]
  have fr: "folder_ref folder_vault folder_node" by code_simp
  have d: "doc_nodes folder_vault plan_file = Some [pdf_node, cover_node, folder_node]"
    by code_simp
  have sh: "no_early_folder_ref folder_vault plan_file" by code_simp
  have f: "plan_file \<in> set (getFiles folder_vault) \<and> extension plan_file = ''canvas'' \<and>
           no_early_folder_ref folder_vault plan_file"
    "path plan_file = ''Projects/Plan.canvas''"
    using sh by (simp_all add: vault_defs)
  have r: "image_ref folder_vault cover_node = Some ''Projects/cover.PNG''"
    "image_ref folder_vault pdf_node = None" "pdf_node \<noteq> JNull"
    by code_simp+
  have ex: "\<exists>nodes i. doc_nodes folder_vault plan_file = Some nodes \<and> i < length nodes \<and>
          image_ref folder_vault (nodes ! i) = Some ''Projects/cover.PNG'' \<and>
          (\<forall>j<i. image_ref folder_vault (nodes ! j) = None \<and> nodes ! j \<noteq> JNull)"
    using d r by (intro exI[of _ "[pdf_node, cover_node, folder_node]"] exI[of _ 1]) simp
  have "map_of (canvasWithThumbnail (scanCanvasFiles folder_vault stale_state))
     (path plan_file) = Some ''Projects/cover.PNG''"
    using plan[THEN conjunct1] f(1) ex by blast
  then have one: "map_of (canvasWithThumbnail (scanCanvasFiles folder_vault stale_state))
     ''Projects/Plan.canvas'' = Some ''Projects/cover.PNG''"
    by (simp only: f(2))
  have no: "\<not> (\<exists>g \<in> set (getFiles folder_vault). extension g = ''canvas'' \<and> path g = ''Old.canvas'')"
    by (simp add: vault_defs)
  have two: "map_of (canvasWithThumbnail (scanCanvasFiles folder_vault stale_state)) ''Old.canvas'' = None"
  proof (cases "map_of (canvasWithThumbnail (scanCanvasFiles folder_vault stale_state)) ''Old.canvas''")
    case None
    then show ?thesis .
  next
    case (Some q)
    then show ?thesis
      using scan_map_first_image
        [OF ok, where f = plan_file and p = q and s = stale_state and k = "''Old.canvas''"] no
      by blast
  qed
  show ?thesis using fr one two plan[THEN conjunct2, THEN conjunct2] by (intro conjI)
qed


lemma nodes_loop_map_cong:
  "canvasWithThumbnail s = canvasWithThumbnail s' \<Longrightarrow>
   map_sum id canvasWithThumbnail (nodes_loop v cf nodes s) =
   map_sum id canvasWithThumbnail (nodes_loop v cf nodes s')"
  by (induction nodes) (auto split: sum.splits option.splits TAbstractFile.splits)

lemma scan_file_map_cong:
  assumes "canvasWithThumbnail s = canvasWithThumbnail s'"
  shows "canvasWithThumbnail (scan_file v f s) = canvasWithThumbnail (scan_file v f s')"
proof -
  have "map_sum id canvasWithThumbnail (try_file v f s) =
        map_sum id canvasWithThumbnail (try_file v f s')"
    using assms nodes_loop_map_cong[OF assms]
    by (simp add: try_file_def split: sum.splits option.splits json.splits)
  then show ?thesis
    using assms by (auto simp: scan_file_def split: sum.splits)
qed

lemma nodes_loop_getFiles:
  "nodes_loop (v\<lparr>getFiles := fs\<rparr>) cf nodes s = nodes_loop v cf nodes s"
  by (induction nodes) (simp_all split: sum.splits option.splits TAbstractFile.splits)

lemma scan_file_getFiles: "scan_file (v\<lparr>getFiles := fs\<rparr>) f s = scan_file v f s"
  by (simp add: scan_file_def try_file_def nodes_loop_getFiles
        split: sum.splits option.splits json.splits)

lemma filter_removeAll_commute: "filter P (removeAll x xs) = removeAll x (filter P xs)"
  by (induction xs) auto

lemma scan_file_failure:
  assumes "read v f = Inl e \<or> (\<exists>content. read v f = Inr content \<and> JSON_parse v content = Inl e)"
  shows "scan_file v f s = scan_log (ScanError (path f) e) s"
  using assms by (auto simp: scan_file_def try_file_def)

lemma fold_skip_failed:
  assumes "\<And>s. canvasWithThumbnail (scan_file v f s) = canvasWithThumbnail s"
    and "canvasWithThumbnail s = canvasWithThumbnail s'"
  shows "canvasWithThumbnail (fold (scan_file v) fs s) =
         canvasWithThumbnail (fold (scan_file v) (removeAll f fs) s')"
  using assms(2)
proof (induction fs arbitrary: s s')
  case Nil
  then show ?case by simp
next
  case (Cons g fs)
  show ?case
  proof (cases "g = f")
    case True
    have "canvasWithThumbnail (scan_file v f s) = canvasWithThumbnail s'"
      using assms(1) Cons.prems by simp
    from Cons.IH[OF this] show ?thesis by (simp add: True)
  next
    case False
    have "canvasWithThumbnail (scan_file v g s) = canvasWithThumbnail (scan_file v g s')"
      using Cons.prems by (rule scan_file_map_cong)
    from Cons.IH[OF this] show ?thesis using False by simp
  qed
qed

lemma scan_file_console: "set (scan_console s) \<subseteq> set (scan_console (scan_file v f s))"
proof -
  have "set (scan_console s) \<subseteq> set (scan_console s')" if "nodes_loop v f nodes s = Inr s'"
    for nodes s'
    using that
    by (induction nodes) (auto split: sum.splits option.splits TAbstractFile.splits if_splits)
  then show ?thesis
    by (auto simp: scan_file_def try_file_def split: sum.splits option.splits json.splits)
qed

lemma fold_scan_console:
  "set (scan_console s) \<subseteq> set (scan_console (fold (scan_file v) fs s))"
proof (induction fs arbitrary: s)
  case Nil
  show ?case by simp
next
  case (Cons g fs)
  show ?case using scan_file_console[of s v g] Cons.IH[of "scan_file v g s"] by auto
qed

lemma fold_logs_failure:
  assumes "\<And>s. scan_file v f s = scan_log m s" "f \<in> set fs"
  shows "m \<in> set (scan_console (fold (scan_file v) fs s))"
  using assms(2)
proof (induction fs arbitrary: s)
  case Nil
  then show ?case by simp
next
  case (Cons g fs)
  show ?case
  proof (cases "g = f")
    case True
    have "m \<in> set (scan_console (scan_file v f s))" by (simp add: assms(1))
    then show ?thesis using fold_scan_console[of "scan_file v f s" v fs] by (auto simp: True)
  next
    case False
    then show ?thesis using Cons by simp
  qed
qed

text \<open>
  C8. When reading a canvas file or parsing its content fails, that file only adds an
  error message to the console; the map produced by the whole scan is the one produced
  with that file left out of the listing, so every other document contributes as
  before; and the error of a listed canvas file is in the console of the scan.
\<close>

theorem failed_document_is_isolated:
  assumes "read v f = Inl e \<or> (\<exists>content. read v f = Inr content \<and> JSON_parse v content = Inl e)"
  shows "scan_file v f s = scan_log (ScanError (path f) e) s \<and>
         canvasWithThumbnail (scanCanvasFiles v s) =
           canvasWithThumbnail (scanCanvasFiles (v\<lparr>getFiles := removeAll f (getFiles v)\<rparr>) s) \<and>
         (f \<in> set (getFiles v) \<and> extension f = ''canvas'' \<longrightarrow>
            ScanError (path f) e \<in> set (scan_console (scanCanvasFiles v s)))"
proof (intro conjI impI)
  show fail: "scan_file v f s = scan_log (ScanError (path f) e) s" for s
    using assms by (rule scan_file_failure)
  have same: "canvasWithThumbnail (scan_file v f s) = canvasWithThumbnail s" for s
    by (simp add: fail)
  have sf: "scan_file (v\<lparr>getFiles := removeAll f (getFiles v)\<rparr>) = scan_file v"
    by (simp add: fun_eq_iff scan_file_getFiles)
  show "canvasWithThumbnail (scanCanvasFiles v s) =
          canvasWithThumbnail (scanCanvasFiles (v\<lparr>getFiles := removeAll f (getFiles v)\<rparr>) s)"
    using fold_skip_failed[OF same refl, of "filter (\<lambda>f. extension f = ''canvas'') (getFiles v)"]
    by (simp add: scanCanvasFiles_map sf filter_removeAll_commute)
  assume "f \<in> set (getFiles v) \<and> extension f = ''canvas''"
  then have "f \<in> set (filter (\<lambda>f. extension f = ''canvas'') (getFiles v))" by simp
  from fold_logs_failure[OF fail this]
  show "ScanError (path f) e \<in> set (scan_console (scanCanvasFiles v s))"
    by (simp add: scanCanvasFiles_def Let_def)
qed

theorem failed_document_is_isolated_witness:
  "scan_file sample_vault broken_file stale_state =
     scan_log (ScanError ''Broken.canvas'' SyntaxError) stale_state \<and>
   canvasWithThumbnail (scanCanvasFiles sample_vault stale_state) =
     [(''Projects/Alpha.canvas'', ''Projects/cover.PNG'')] \<and>
   ScanError ''Broken.canvas'' SyntaxError \<in>
     set (scan_console (scanCanvasFiles sample_vault stale_state))"
proof -
  have h: "read sample_vault broken_file = Inl SyntaxError \<or>
           (\<exists>content. read sample_vault broken_file = Inr content \<and>
                      JSON_parse sample_vault content = Inl SyntaxError)"
    by (simp add: vault_defs)
  have m: "broken_file \<in> set (getFiles sample_vault) \<and> extension broken_file = ''canvas''"
    "path broken_file = ''Broken.canvas''"
    by (simp_all add: vault_defs)
  have rest: "canvasWithThumbnail
          (scanCanvasFiles (sample_vault\<lparr>getFiles := removeAll broken_file (getFiles sample_vault)\<rparr>)
             stale_state) = [(''Projects/Alpha.canvas'', ''Projects/cover.PNG'')]"
    by code_simp
  show ?thesis
    using failed_document_is_isolated[OF h, of stale_state] m rest by simp
qed

section \<open>Two passes with the scanned map\<close>

lemma scanned_keys_nonempty:
  assumes "\<forall>f \<in> set (getFiles v). path f \<noteq> ''''"
  shows "\<forall>e \<in> set (canvasWithThumbnail (scanCanvasFiles v s)). fst e \<noteq> ''''"
proof
  fix e
  assume "e \<in> set (canvasWithThumbnail (scanCanvasFiles v s))"
  then have "(fst e, snd e) \<in> set (canvasWithThumbnail (scanCanvasFiles v s))" by simp
  then obtain p where "map_of (canvasWithThumbnail (scanCanvasFiles v s)) (fst e) = Some p"
    using weak_map_of_SomeI by fastforce
  then obtain g where "g \<in> set (getFiles v)" "path g = fst e"
    using scan_keys_are_canvas_paths by blast
  then show "fst e \<noteq> ''''" using assms by auto
qed

lemma marked_iff_present:
  "no_empty_marker st \<Longrightarrow>
   marked st i \<longleftrightarrow> map_of (attributes (st i)) ''data-canvas-thumbnail'' \<noteq> None"
  by (auto simp: no_empty_marker_def marked_def truthy_attr_def split: option.splits)

lemma step_no_empty:
  assumes "fst e \<noteq> ''''" "no_empty_marker (elems w)"
  shows "no_empty_marker (elems (fst (forEach_body adp cont e (w, n))))"
proof (cases e)
  case (Pair cp ip)
  show ?thesis
  proof (cases rule: step_cases[of w cont cp])
    case (decorate c)
    show ?thesis
    proof (cases adp)
      case (FileSystemAdapter r)
      then show ?thesis
        using assms decorate
        by (simp add: Pair step_decorate no_empty_marker_def setCardThumbnail_attr)
    next
      case OtherAdapter
      then show ?thesis
        using assms decorate by (simp add: Pair step_decorate setCardThumbnail_no_adapter)
    qed
  next
    case (skip c)
    then show ?thesis using assms by (simp add: Pair step_skip_marked)
  next
    case none
    then show ?thesis using assms by (simp add: Pair step_no_target)
  qed
qed

lemma fold_no_empty:
  "\<forall>e \<in> set data. fst e \<noteq> '''' \<Longrightarrow> no_empty_marker (elems w) \<Longrightarrow>
   no_empty_marker (elems (fst (fold (forEach_body adp cont) data (w, n))))"
proof (induction data arbitrary: w n)
  case Nil
  then show ?case by simp
next
  case (Cons e data)
  obtain w1 n1 where s: "forEach_body adp cont e (w, n) = (w1, n1)" by fastforce
  have "no_empty_marker (elems w1)"
    using step_no_empty[of e w adp cont n] Cons.prems by (simp add: s)
  then show ?case using Cons.IH[of w1 n1] Cons.prems(1) by (simp add: s)
qed

lemma addCardThumbnails_no_empty:
  assumes "\<forall>e \<in> set data. fst e \<noteq> ''''" "no_empty_marker (elems w)"
  shows "no_empty_marker (elems (addCardThumbnails adp data w))"
proof (cases "document_querySelector w (ClassSel ''bases-cards-container'')")
  case None
  then show ?thesis using assms(2) by (simp add: addCardThumbnails_no_container)
next
  case (Some cont)
  show ?thesis
    using fold_no_empty[OF assms(1), of "log (StartUpdate (length data)) w" adp cont 0] assms(2)
    by (simp add: addCardThumbnails_container[OF Some])
qed

text \<open>
  C2. The map is the one the plugin holds after a scan of a vault whose file paths are
  not empty, and the document is one in which no marker is empty, which every pass
  preserves. An entry whose cover carries the marker attribute is skipped, leaving the
  world and the count as they were. A second pass with the same map over the document
  left by the first changes no element; with the file-system adapter available its
  console holds only the opening message, the not-found messages and a count of 0.
\<close>

theorem second_reconcile_decorates_nothing:
  assumes "\<forall>f \<in> set (getFiles v). path f \<noteq> ''''"
  shows "(no_empty_marker (elems w') \<and>
          findCardByFileName (elems w') cont' (getFileNameFromPath cp) = Some cardEl \<and>
          cover_element (elems w') cardEl = Some c \<and>
          getAttribute w' c ''data-canvas-thumbnail'' \<noteq> None \<longrightarrow>
            forEach_body adp' cont' (cp, ip) (w', n) = (w', n)) \<and>
         (no_empty_marker (elems w) \<longrightarrow>
            no_empty_marker
              (elems (addCardThumbnails adp (canvasWithThumbnail (scanCanvasFiles v s)) w))) \<and>
         elems (addCardThumbnails adp (canvasWithThumbnail (scanCanvasFiles v s))
                  (addCardThumbnails adp (canvasWithThumbnail (scanCanvasFiles v s)) w)) =
           elems (addCardThumbnails adp (canvasWithThumbnail (scanCanvasFiles v s)) w) \<and>
         (document_querySelector w (ClassSel ''bases-cards-container'') = Some cont \<longrightarrow>
            console (addCardThumbnails (FileSystemAdapter r)
                       (canvasWithThumbnail (scanCanvasFiles v s))
                       (addCardThumbnails (FileSystemAdapter r)
                          (canvasWithThumbnail (scanCanvasFiles v s)) w)) =
              console (addCardThumbnails (FileSystemAdapter r)
                         (canvasWithThumbnail (scanCanvasFiles v s)) w) @
                StartUpdate (length (canvasWithThumbnail (scanCanvasFiles v s))) #
                concat (map (not_found_report (elems w) cont)
                          (canvasWithThumbnail (scanCanvasFiles v s))) @ [UpdateDone 0])"
proof (intro conjI impI)
  note keys = scanned_keys_nonempty[OF assms, of s]
  {
    assume a: "no_empty_marker (elems w') \<and>
          findCardByFileName (elems w') cont' (getFileNameFromPath cp) = Some cardEl \<and>
          cover_element (elems w') cardEl = Some c \<and>
          getAttribute w' c ''data-canvas-thumbnail'' \<noteq> None"
    then have t: "target_cover (elems w') cont' cp = Some c"
      by (simp add: target_cover_def querySelector_cover)
    have "marked (elems w') (ident c)"
      using a by (simp add: marked_iff_present getAttribute_def)
    with t show "forEach_body adp' cont' (cp, ip) (w', n) = (w', n)"
      by (rule step_skip_marked)
  }
  {
    assume "no_empty_marker (elems w)"
    with keys show "no_empty_marker
              (elems (addCardThumbnails adp (canvasWithThumbnail (scanCanvasFiles v s)) w))"
      by (rule addCardThumbnails_no_empty)
  }
  show "elems (addCardThumbnails adp (canvasWithThumbnail (scanCanvasFiles v s))
                  (addCardThumbnails adp (canvasWithThumbnail (scanCanvasFiles v s)) w)) =
           elems (addCardThumbnails adp (canvasWithThumbnail (scanCanvasFiles v s)) w)"
    using keys by (rule second_pass_elems)
  {
    assume "document_querySelector w (ClassSel ''bases-cards-container'') = Some cont"
    from second_pass_settled[OF keys this, of r]
    show "console (addCardThumbnails (FileSystemAdapter r)
                       (canvasWithThumbnail (scanCanvasFiles v s))
                       (addCardThumbnails (FileSystemAdapter r)
                          (canvasWithThumbnail (scanCanvasFiles v s)) w)) =
              console (addCardThumbnails (FileSystemAdapter r)
                         (canvasWithThumbnail (scanCanvasFiles v s)) w) @
                StartUpdate (length (canvasWithThumbnail (scanCanvasFiles v s))) #
                concat (map (not_found_report (elems w) cont)
                          (canvasWithThumbnail (scanCanvasFiles v s))) @ [UpdateDone 0]"
      by simp
  }
qed

theorem second_reconcile_decorates_nothing_witness:
  "scanned_data = [(''Projects/Alpha.canvas'', ''Projects/cover.PNG'')] \<and>
   no_empty_marker (elems sample_world) \<and>
   no_empty_marker (elems (addCardThumbnails sample_adapter scanned_data sample_world)) \<and>
   getAttribute (addCardThumbnails sample_adapter scanned_data sample_world)
     (Element 6 []) ''data-canvas-thumbnail'' = Some ''Projects/Alpha.canvas'' \<and>
   forEach_body sample_adapter sample_container (''Projects/Alpha.canvas'', ''x.png'')
     (addCardThumbnails sample_adapter scanned_data sample_world, 0) =
     (addCardThumbnails sample_adapter scanned_data sample_world, 0) \<and>
   elems (addCardThumbnails sample_adapter scanned_data
            (addCardThumbnails sample_adapter scanned_data sample_world)) =
     elems (addCardThumbnails sample_adapter scanned_data sample_world) \<and>
   console (addCardThumbnails sample_adapter scanned_data
              (addCardThumbnails sample_adapter scanned_data sample_world)) =
     console (addCardThumbnails sample_adapter scanned_data sample_world) @
       [StartUpdate 1, UpdateDone 0]"
proof -
  let ?w1 = "addCardThumbnails sample_adapter scanned_data sample_world"
  have paths: "\<forall>f \<in> set (getFiles sample_vault). path f \<noteq> ''''"
    by (simp add: vault_defs)
  have sd: "scanned_data = [(''Projects/Alpha.canvas'', ''Projects/cover.PNG'')]"
    by code_simp
  have ne0: "no_empty_marker (elems sample_world)"
    by (simp add: no_empty_marker_def sample_defs)
  have t: "findCardByFileName (elems ?w1) sample_container
             (getFileNameFromPath ''Projects/Alpha.canvas'') = Some card_alpha"
    "cover_element (elems ?w1) card_alpha = Some (Element 6 [])"
    by code_simp+
  have m: "getAttribute ?w1 (Element 6 []) ''data-canvas-thumbnail'' =
             Some ''Projects/Alpha.canvas''"
    by code_simp
  have c: "document_querySelector sample_world (ClassSel ''bases-cards-container'') =
             Some sample_container"
    by code_simp
  have r: "concat (map (not_found_report (elems sample_world) sample_container) scanned_data) = []"
    by code_simp
  have l: "length scanned_data = 1" by (simp add: sd)
  note pass = second_reconcile_decorates_nothing
      [OF paths, where s = stale_state and w = sample_world and cont = sample_container
         and adp = sample_adapter and r = "\<lambda>p. ''app://local/'' @ p"
         and w' = ?w1 and cont' = sample_container and cp = "''Projects/Alpha.canvas''"
         and cardEl = card_alpha and c = "Element 6 []" and adp' = sample_adapter
         and ip = "''x.png''" and n = 0,
       folded sample_adapter_def scanned_data_def]
  have ne1: "no_empty_marker (elems ?w1)"
    using pass[THEN conjunct2, THEN conjunct1] ne0 by blast
  have skip: "forEach_body sample_adapter sample_container (''Projects/Alpha.canvas'', ''x.png'')
                (?w1, 0) = (?w1, 0)"
    using pass[THEN conjunct1] ne1 t m by simp
  have same: "elems (addCardThumbnails sample_adapter scanned_data ?w1) = elems ?w1"
    using pass[THEN conjunct2, THEN conjunct2, THEN conjunct1] .
  have cons: "console (addCardThumbnails sample_adapter scanned_data ?w1) =
                console ?w1 @ [StartUpdate 1, UpdateDone 0]"
    using pass[THEN conjunct2, THEN conjunct2, THEN conjunct2] c r l by simp
  show ?thesis using sd ne0 ne1 m skip same cons by (intro conjI)
qed

section \<open>Properties of the scheduler\<close>

lemma arm_after_clear:
  assumes "sched_inv p"
  shows "timers (clearTimeout (updateTimeout p) p) = []"
  using assms by (auto simp: sched_inv_def clearTimeout_def split: option.splits)

lemma clearTimeout_fields [simp]:
  "now (clearTimeout i p) = now p" "nextTimerId (clearTimeout i p) = nextTimerId p"
  "passes (clearTimeout i p) = passes p" "scansStarted (clearTimeout i p) = scansStarted p"
  "updateTimeout (clearTimeout i p) = updateTimeout p"
  by (simp_all add: clearTimeout_def split: option.splits)

lemma arm_eq:
  assumes "sched_inv p"
  shows "(case setTimeout cb delay (clearTimeout (updateTimeout p) p) of
            (i, p') \<Rightarrow> p'\<lparr>updateTimeout := Some i\<rparr>) = armed cb delay p"
proof -
  have "clearTimeout (updateTimeout p) p = p\<lparr>timers := []\<rparr>"
    using arm_after_clear[OF assms] by (simp add: clearTimeout_def split: option.splits)
  then show ?thesis by (simp add: setTimeout_def armed_def)
qed

lemma updateCardThumbnails_armed:
  "sched_inv p \<Longrightarrow> updateCardThumbnails p = armed CallAddCardThumbnails 200 p"
  by (simp add: updateCardThumbnails_def arm_eq)

lemma scheduleUpdate_armed:
  "sched_inv p \<Longrightarrow> scheduleUpdate p = armed CallUpdateCardThumbnails 500 p"
  by (simp add: scheduleUpdate_def arm_eq)

lemma scheduleCanvasUpdate_armed:
  "sched_inv p \<Longrightarrow> scheduleCanvasUpdate p = armed CallScanThenUpdate 1000 p"
  by (simp add: scheduleCanvasUpdate_def arm_eq)

lemma armed_inv: "0 < delay \<Longrightarrow> sched_inv (armed cb delay p)"
  by (simp add: sched_inv_def armed_def)

lemma tick_idle:
  "timers p = [] \<Longrightarrow> tick p = p\<lparr>now := Suc (now p)\<rparr>"
  by (simp add: tick_def)

lemma tick_waiting:
  "timers p = [t] \<Longrightarrow> Suc (now p) < due t \<Longrightarrow> tick p = p\<lparr>now := Suc (now p)\<rparr>"
  by (simp add: tick_def)

lemma tick_fires:
  "timers p = [t] \<Longrightarrow> due t \<le> Suc (now p) \<Longrightarrow>
   tick p = run_callback (callback t) (p\<lparr>now := Suc (now p), timers := []\<rparr>)"
  by (simp add: tick_def)

lemma no_timer_inv: "timers p = [] \<Longrightarrow> sched_inv p"
  by (simp add: sched_inv_def)

lemma run_callback_inv:
  assumes "timers p = []"
  shows "sched_inv (run_callback cb p)"
proof (cases cb)
  case CallUpdateCardThumbnails
  then show ?thesis
    by (simp add: updateCardThumbnails_armed[OF no_timer_inv[OF assms]] armed_inv)
next
  case CallAddCardThumbnails
  then show ?thesis using assms by (simp add: sched_inv_def)
next
  case CallScanThenUpdate
  then show ?thesis using assms by (simp add: sched_inv_def)
qed

lemma tick_inv:
  assumes "sched_inv p"
  shows "sched_inv (tick p)"
proof (cases "timers p")
  case Nil
  then show ?thesis by (simp add: tick_idle sched_inv_def)
next
  case (Cons t ts)
  then have one: "timers p = [t]" and id: "updateTimeout p = Some (timer_id t)"
    and fut: "now p < due t" and fresh: "timer_id t < nextTimerId p"
    using assms by (auto simp: sched_inv_def)
  show ?thesis
  proof (cases "due t \<le> Suc (now p)")
    case True
    show ?thesis
      by (simp add: tick_fires[OF one True] run_callback_inv)
  next
    case False
    then have "Suc (now p) < due t" by simp
    then show ?thesis
      using one id fresh by (simp add: tick_waiting[OF one] sched_inv_def)
  qed
qed

lemma step_inv: "sched_inv p \<Longrightarrow> sched_inv (step e p)"
  by (cases e)
     (simp_all add: scheduleUpdate_armed scheduleCanvasUpdate_armed updateCardThumbnails_armed
        armed_inv tick_inv)

lemma run_inv: "sched_inv p \<Longrightarrow> sched_inv (run evs p)"
  unfolding run_def by (induction evs arbitrary: p) (simp_all add: step_inv)

lemma initial_inv: "sched_inv initial"
  by (simp add: sched_inv_def initial_def)

lemma inv_at_most_one: "sched_inv p \<Longrightarrow> length (timers p) \<le> 1"
  by (auto simp: sched_inv_def)

lemma run_append: "run (a @ b) p = run b (run a p)"
  by (simp add: run_def)

lemma run_ticks_idle:
  "timers p = [] \<Longrightarrow> run (replicate n Tick) p = p\<lparr>now := now p + n\<rparr>"
proof (induction n arbitrary: p)
  case 0
  show ?case by (simp add: run_def)
next
  case (Suc n)
  have "run (replicate (Suc n) Tick) p = run (replicate n Tick) (tick p)"
    by (simp add: run_def)
  also have "\<dots> = (tick p)\<lparr>now := now (tick p) + n\<rparr>"
    using Suc.prems by (intro Suc.IH) (simp add: tick_idle)
  finally show ?case using Suc.prems by (simp add: tick_idle)
qed

lemma run_ticks_waiting:
  "timers p = [t] \<Longrightarrow> now p + n < due t \<Longrightarrow>
   run (replicate n Tick) p = p\<lparr>now := now p + n\<rparr>"
proof (induction n arbitrary: p)
  case 0
  show ?case by (simp add: run_def)
next
  case (Suc n)
  have w: "tick p = p\<lparr>now := Suc (now p)\<rparr>"
    using Suc.prems by (intro tick_waiting) (simp, arith)
  have "run (replicate (Suc n) Tick) p = run (replicate n Tick) (tick p)"
    by (simp add: run_def)
  also have "\<dots> = (tick p)\<lparr>now := now (tick p) + n\<rparr>"
    using Suc.prems by (intro Suc.IH) (simp_all add: w)
  finally show ?case by (simp add: w)
qed

lemma run_ticks_fire:
  assumes "timers p = [t]" "due t = now p + Suc n"
  shows "run (replicate (Suc n) Tick) p =
           run_callback (callback t) (p\<lparr>now := due t, timers := []\<rparr>)"
proof -
  have "replicate (Suc n) Tick = replicate n Tick @ [Tick]"
    by (simp add: replicate_append_same)
  then have "run (replicate (Suc n) Tick) p = tick (run (replicate n Tick) p)"
    by (simp add: run_append run_def)
  also have "run (replicate n Tick) p = p\<lparr>now := now p + n\<rparr>"
    using assms by (intro run_ticks_waiting) (simp, arith)
  also have "tick (p\<lparr>now := now p + n\<rparr>) =
      run_callback (callback t) (p\<lparr>now := now p + n\<rparr>\<lparr>now := Suc (now p + n), timers := []\<rparr>)"
    using assms by (subst tick_fires[where t = t]) simp_all
  finally show ?thesis using assms by simp
qed

lemma primed_inv: "primed q \<Longrightarrow> sched_inv q"
  by (auto simp: primed_def sched_inv_def)

lemma scheduleUpdate_primed:
  assumes "sched_inv p"
  shows "primed (scheduleUpdate p)" "now (scheduleUpdate p) = now p"
    "passes (scheduleUpdate p) = passes p"
  by (simp_all add: scheduleUpdate_armed[OF assms] armed_def primed_def)

lemma primed_gap:
  assumes "primed q" "g < 500"
  shows "primed (scheduleUpdate (run (replicate g Tick) q))"
    "now (scheduleUpdate (run (replicate g Tick) q)) = now q + g"
    "passes (scheduleUpdate (run (replicate g Tick) q)) = passes q"
proof -
  obtain i where t: "timers q = [\<lparr>timer_id = i, due = now q + 500, callback = CallUpdateCardThumbnails\<rparr>]"
    and u: "updateTimeout q = Some i" and f: "i < nextTimerId q"
    using assms(1) by (auto simp: primed_def)
  have "now q + g < due \<lparr>timer_id = i, due = now q + 500, callback = CallUpdateCardThumbnails\<rparr>"
    using assms(2) by simp
  with t have w: "run (replicate g Tick) q = q\<lparr>now := now q + g\<rparr>"
    by (rule run_ticks_waiting)
  have inv: "sched_inv (q\<lparr>now := now q + g\<rparr>)"
    using t u f assms(2) by (simp add: sched_inv_def)
  show "primed (scheduleUpdate (run (replicate g Tick) q))"
    "now (scheduleUpdate (run (replicate g Tick) q)) = now q + g"
    "passes (scheduleUpdate (run (replicate g Tick) q)) = passes q"
    using scheduleUpdate_primed[OF inv] by (simp_all add: w)
qed

lemma primed_gaps:
  assumes "primed q" "\<forall>g \<in> set gaps. g < 500"
  shows "primed (run (concat (map (\<lambda>g. replicate g Tick @ [LayoutChange]) gaps)) q) \<and>
         now (run (concat (map (\<lambda>g. replicate g Tick @ [LayoutChange]) gaps)) q) =
           now q + sum_list gaps \<and>
         passes (run (concat (map (\<lambda>g. replicate g Tick @ [LayoutChange]) gaps)) q) = passes q"
  using assms
proof (induction gaps arbitrary: q)
  case Nil
  then show ?case by (simp add: run_def)
next
  case (Cons g gaps)
  let ?q1 = "scheduleUpdate (run (replicate g Tick) q)"
  have g: "g < 500" and rest: "\<forall>g \<in> set gaps. g < 500" using Cons.prems(2) by simp_all
  note p1 = primed_gap[OF Cons.prems(1) g]
  have unfold: "run (concat (map (\<lambda>g. replicate g Tick @ [LayoutChange]) (g # gaps))) q =
                run (concat (map (\<lambda>g. replicate g Tick @ [LayoutChange]) gaps)) ?q1"
    by (simp add: run_append) (simp add: run_def)
  show ?case
    using Cons.IH[OF p1(1) rest] p1(2,3) by (simp only: unfold) simp
qed

lemma primed_fires_once:
  assumes "primed q" "700 \<le> d"
  shows "passes (run (replicate d Tick) q) = passes q @ [now q + 700]"
    and "timers (run (replicate d Tick) q) = []"
proof -
  obtain i where t: "timers q = [\<lparr>timer_id = i, due = now q + 500, callback = CallUpdateCardThumbnails\<rparr>]"
    using assms(1) by (auto simp: primed_def)
  let ?a = "q\<lparr>now := now q + 500, timers := []\<rparr>"
  let ?q2 = "armed CallAddCardThumbnails 200 ?a"
  let ?b = "?q2\<lparr>now := now q + 700, timers := []\<rparr>"
  let ?q3 = "?b\<lparr>passes := passes q @ [now q + 700]\<rparr>"
  have s1: "run (replicate 500 Tick) q = ?q2"
    using run_ticks_fire[OF t, of 499]
    by (simp add: updateCardThumbnails_armed no_timer_inv)
  have t2: "timers ?q2 = [\<lparr>timer_id = nextTimerId q, due = now ?q2 + 200,
                            callback = CallAddCardThumbnails\<rparr>]"
    by (simp add: armed_def)
  have s2: "run (replicate 200 Tick) ?q2 = ?q3"
    using run_ticks_fire[OF t2, of 199] by (simp add: armed_def)
  have s3: "run (replicate (d - 700) Tick) ?q3 = ?q3\<lparr>now := now ?q3 + (d - 700)\<rparr>"
    by (intro run_ticks_idle) simp
  have "replicate d Tick = replicate 500 Tick @ replicate 200 Tick @ replicate (d - 700) Tick"
    using assms(2) by (simp add: replicate_add[symmetric])
  then have all: "run (replicate d Tick) q = ?q3\<lparr>now := now ?q3 + (d - 700)\<rparr>"
    by (simp only: run_append s1 s2 s3)
  show "passes (run (replicate d Tick) q) = passes q @ [now q + 700]"
    by (simp add: all)
  show "timers (run (replicate d Tick) q) = []"
    by (simp add: all)
qed

text \<open>
  C7. After any history of events, a burst of calls of \<open>scheduleUpdate\<close>, each less
  than 500 ms after the one before, followed by at least 700 ms without further events,
  adds exactly one decorate pass, 700 ms after the last call of the burst: the 500 ms of
  \<open>scheduleUpdate\<close> and then the 200 ms of \<open>updateCardThumbnails\<close>. After any
  history at most one timer is pending, and a call of \<open>scheduleUpdate\<close> leaves its
  own new timer as the only one.
\<close>

theorem debounced_burst_runs_one_pass:
  assumes "\<forall>g \<in> set gaps. g < 500" and "700 \<le> d"
  shows "passes (run (evs @ burst gaps @ replicate d Tick) initial) =
           passes (run evs initial) @ [now (run evs initial) + sum_list gaps + 700] \<and>
         timers (run (evs @ burst gaps @ replicate d Tick) initial) = [] \<and>
         length (timers (run evs' initial)) \<le> 1 \<and>
         timers (scheduleUpdate (run evs' initial)) =
           [\<lparr>timer_id = nextTimerId (run evs' initial), due = now (run evs' initial) + 500,
             callback = CallUpdateCardThumbnails\<rparr>]"
proof -
  let ?p = "run evs initial"
  let ?q = "run (concat (map (\<lambda>g. replicate g Tick @ [LayoutChange]) gaps)) (scheduleUpdate ?p)"
  have inv: "sched_inv ?p" by (intro run_inv initial_inv)
  have inv': "sched_inv (run evs' initial)" by (intro run_inv initial_inv)
  note first = scheduleUpdate_primed[OF inv]
  from primed_gaps[OF first(1) assms(1)]
  have q: "primed ?q" "now ?q = now ?p + sum_list gaps" "passes ?q = passes ?p"
    by (simp_all add: first)
  have split: "run (evs @ burst gaps @ replicate d Tick) initial = run (replicate d Tick) ?q"
    by (simp add: run_append burst_def) (simp add: run_def)
  show ?thesis
    using primed_fires_once[OF q(1) assms(2)] q(2,3) inv_at_most_one[OF inv']
    by (simp add: split scheduleUpdate_armed[OF inv'] armed_def)
qed

theorem debounced_burst_runs_one_pass_witness:
  "passes (run ([CanvasModified, Tick, Tick] @ burst [100, 499, 0] @ replicate 700 Tick) initial) =
     [1301] \<and>
   timers (run ([CanvasModified, Tick, Tick] @ burst [100, 499, 0] @ replicate 700 Tick) initial) = [] \<and>
   length (timers (run [CanvasModified, Tick, LayoutChange] initial)) \<le> 1"
proof -
  have g: "\<forall>g \<in> set [100, 499, 0::nat]. g < 500" by simp
  have d: "(700::nat) \<le> 700" by simp
  have p: "passes (run [CanvasModified, Tick, Tick] initial) = []"
    "now (run [CanvasModified, Tick, Tick] initial) = 2"
    by code_simp+
  show ?thesis
    using debounced_burst_runs_one_pass[OF g d, of "[CanvasModified, Tick, Tick]"
        "[CanvasModified, Tick, LayoutChange]"] p
    by simp
qed

section \<open>Properties of clearing\<close>

lemma clear_one_elems:
  "elems (clear_one el s) = (elems s)(ident el := cleared (elems s (ident el)))"
  by (simp add: clear_one_def removeAttribute_def setStyle_def cleared_def fun_eq_iff)

lemma unload_one_elems:
  "elems (unload_one el s) = (elems s)(ident el := unmarked (elems s (ident el)))"
  by (simp add: unload_one_def removeAttribute_def setStyle_def unmarked_def fun_eq_iff)

lemma cleared_idem: "cleared (cleared st) = cleared st"
  by (simp add: cleared_def delete_idem delete_twist)

lemma unmarked_idem: "unmarked (unmarked st) = unmarked st"
  by (simp add: unmarked_def delete_idem)

lemma fold_pointwise:
  assumes "\<And>el s. elems (f el s) = (elems s)(ident el := g (elems s (ident el)))"
    and "\<And>x. g (g x) = g x"
  shows "elems (fold f els w) i = (if i \<in> ident ` set els then g (elems w i) else elems w i)"
proof (induction els arbitrary: w)
  case Nil
  show ?case by simp
next
  case (Cons el els)
  show ?case by (simp add: Cons.IH assms)
qed

lemma fold_other_fields:
  assumes "\<And>el s. document (f el s) = document s \<and> console (f el s) = console s \<and>
                    cssAccepts (f el s) = cssAccepts s"
  shows "document (fold f els w) = document w \<and> console (fold f els w) = console w \<and>
         cssAccepts (fold f els w) = cssAccepts w"
  by (induction els arbitrary: w) (simp_all add: assms)

lemma clearAllThumbnails_fold:
  "clearAllThumbnails w =
     log (Cleared (length (document_querySelectorAll w (HasAttrSel ''data-canvas-thumbnail''))))
       (fold clear_one (document_querySelectorAll w (HasAttrSel ''data-canvas-thumbnail'')) w)"
  by (simp add: clearAllThumbnails_def Let_def clear_one_def[abs_def])

lemma onunload_document_fold:
  "onunload_document w =
     fold unload_one (document_querySelectorAll w (HasAttrSel ''data-canvas-thumbnail''))
       (log Unloading w)"
  by (simp add: onunload_document_def unload_one_def[abs_def] document_querySelectorAll_def)

lemma decorated_idents:
  "ident e \<in> ident ` set (document_querySelectorAll w (HasAttrSel ''data-canvas-thumbnail''))
     \<longleftrightarrow> (\<exists>e' \<in> set (subtree (document w)). ident e' = ident e) \<and>
          getAttribute w e ''data-canvas-thumbnail'' \<noteq> None"
  by (auto simp: document_querySelectorAll_def getAttribute_def image_iff)

lemma clearAllThumbnails_elems:
  "elems (clearAllThumbnails w) i =
     (if i \<in> ident ` set (document_querySelectorAll w (HasAttrSel ''data-canvas-thumbnail''))
      then cleared (elems w i) else elems w i)"
  by (simp add: clearAllThumbnails_fold fold_pointwise[where f = clear_one and g = cleared, OF clear_one_elems cleared_idem])

lemma onunload_document_elems:
  "elems (onunload_document w) i =
     (if i \<in> ident ` set (document_querySelectorAll w (HasAttrSel ''data-canvas-thumbnail''))
      then unmarked (elems w i) else elems w i)"
  by (simp add: onunload_document_fold fold_pointwise[where f = unload_one and g = unmarked, OF unload_one_elems unmarked_idem])

lemma clearAllThumbnails_removes:
  assumes "e \<in> set (subtree (document w))"
  shows "getAttribute (clearAllThumbnails w) e ''data-canvas-thumbnail'' = None"
    and "getAttribute w e ''data-canvas-thumbnail'' \<noteq> None \<Longrightarrow>
         getAttribute (clearAllThumbnails w) e ''data-image-path'' = None \<and>
         map_of (style (elems (clearAllThumbnails w) (ident e))) ''background-image'' = None"
  using assms
  by (auto simp: getAttribute_def clearAllThumbnails_elems decorated_idents[unfolded getAttribute_def]
        cleared_def delete_conv)

lemma onunload_document_removes:
  assumes "e \<in> set (subtree (document w))"
  shows "getAttribute (onunload_document w) e ''data-canvas-thumbnail'' = None"
    and "getAttribute w e ''data-canvas-thumbnail'' \<noteq> None \<Longrightarrow>
         map_of (style (elems (onunload_document w) (ident e))) ''background-image'' = None"
  using assms
  by (auto simp: getAttribute_def onunload_document_elems decorated_idents[unfolded getAttribute_def]
        unmarked_def delete_conv)

lemma clear_nothing_decorated:
  assumes "document_querySelectorAll w (HasAttrSel ''data-canvas-thumbnail'') = []"
  shows "clearAllThumbnails w = log (Cleared 0) w" "onunload_document w = log Unloading w"
  using assms
  by (simp_all add: clearAllThumbnails_fold onunload_document_fold
        document_querySelectorAll_def)

text \<open>
  C4. \<open>onunload\<close> resets the background image and removes \<open>data-canvas-thumbnail\<close>
  but not \<open>data-image-path\<close>, which \<open>clearAllThumbnails\<close> does remove: after the
  sample cover has been decorated and the plugin unloaded, the cover still carries
  \<open>data-image-path\<close>.
\<close>

theorem onunload_keeps_image_path:
  "getAttribute (onunload_document (addCardThumbnails sample_adapter alpha_data sample_world))
     (Element 6 []) ''data-canvas-thumbnail'' = None \<and>
   getAttribute (onunload_document (addCardThumbnails sample_adapter alpha_data sample_world))
     (Element 6 []) ''data-image-path'' = Some ''Projects/cover.png'' \<and>
   getAttribute (clearAllThumbnails (addCardThumbnails sample_adapter alpha_data sample_world))
     (Element 6 []) ''data-image-path'' = None"
  by code_simp

end
